theory Spec2Isabelle
  imports Complex_Main "HOL-Library.Log_Nat"
begin

section \<open>Python values shared by both notebooks\<close>

text \<open>
  Exceptions of the Python source are values of \<open>py_error\<close>; a function that can raise
  returns \<open>py_error + 'a\<close> with \<open>Inl\<close> for the exception.
\<close>

datatype py_error =
  IndexError | ValueError | ZeroDivisionError | OverflowError | NotImplementedError |
  AttributeError | NameError

text \<open>
  A two-dimensional numpy array: its shape and its rows. The shape is kept beside the
  rows because an array with no rows still has a column count.
  Floating-point cells are idealised as rationals.
\<close>

record ndarray =
  shape0 :: nat
  shape1 :: nat
  cells :: "rat list list"

definition wf_ndarray :: "ndarray \<Rightarrow> bool" where
  "wf_ndarray A \<longleftrightarrow>
     length (cells A) = shape0 A \<and> list_all (\<lambda>r. length r = shape1 A) (cells A)"

definition array2 :: "rat list list \<Rightarrow> ndarray" where
  "array2 rs = \<lparr>shape0 = length rs, shape1 = (case rs of [] \<Rightarrow> 0 | r # _ \<Rightarrow> length r),
     cells = rs\<rparr>"

text \<open>\<open>A[i, j]\<close> for non-negative indices; numpy raises IndexError out of range.\<close>

definition item :: "ndarray \<Rightarrow> nat \<Rightarrow> nat \<Rightarrow> py_error + rat" where
  "item A i j = (if i < shape0 A \<and> j < shape1 A then Inr (cells A ! i ! j) else Inl IndexError)"

text \<open>The same read where the indices are known to be in range.\<close>

definition cell :: "ndarray \<Rightarrow> nat \<Rightarrow> nat \<Rightarrow> rat" where
  "cell A i j = cells A ! i ! j"

section \<open>Greedy allocator: \<open>HeuristicOptimizer\<close>\<close>

record heuristic_optimizer =
  BED :: ndarray
  capacity :: int
  num_accesses :: nat

definition HeuristicOptimizer :: "ndarray \<Rightarrow> int \<Rightarrow> heuristic_optimizer" where
  "HeuristicOptimizer B c = \<lparr>BED = B, capacity = c, num_accesses = 0\<rparr>"

text \<open>\<open>np.argmax\<close>: the first index of the largest entry; ValueError on an empty array.\<close>

fun argmax_scan :: "rat list \<Rightarrow> nat \<Rightarrow> nat \<Rightarrow> rat \<Rightarrow> nat" where
  "argmax_scan [] i best bv = best"
| "argmax_scan (y # ys) i best bv =
     (if bv < y then argmax_scan ys (Suc i) i y else argmax_scan ys (Suc i) best bv)"

definition argmax :: "rat list \<Rightarrow> py_error + nat" where
  "argmax xs = (case xs of [] \<Rightarrow> Inl ValueError | x # ys \<Rightarrow> Inr (argmax_scan ys 1 0 x))"

text \<open>\<open>BED[:,1] - BED[:,0]\<close>: IndexError when the array has fewer than two columns.\<close>

definition first_gains :: "ndarray \<Rightarrow> py_error + rat list" where
  "first_gains B =
     (if shape1 B < 2 then Inl IndexError else Inr (map (\<lambda>r. r ! 1 - r ! 0) (cells B)))"

text \<open>
  One pass of the body of \<open>for i in range(self.capacity)\<close>. The loop state is the list
  \<open>state\<close> of units per patient, the array \<open>benefit\<close> of next-unit gains and the counter
  \<open>num_accesses\<close>. \<open>patient\<close> is an index of \<open>benefit\<close>, which is as long as \<open>state\<close>.
\<close>

definition greedy_body ::
  "ndarray \<Rightarrow> nat list \<times> rat list \<times> nat \<Rightarrow> py_error + (nat list \<times> rat list \<times> nat)" where
  "greedy_body B sbn =
     (case sbn of (state, benefit, acc) \<Rightarrow>
        (case argmax benefit of
           Inl e \<Rightarrow> Inl e
         | Inr patient \<Rightarrow>
             (let state' = state[patient := state ! patient + 1];
                  max_fractions_per_patient = int (shape1 B) - 1
              in if int (state' ! patient) = max_fractions_per_patient
                 then Inr (state', benefit[patient := 0], acc + 1)
                 else (case item B patient (state' ! patient + 1) of
                         Inl e \<Rightarrow> Inl e
                       | Inr hi \<Rightarrow>
                           (case item B patient (state' ! patient) of
                              Inl e \<Rightarrow> Inl e
                            | Inr lo \<Rightarrow> Inr (state', benefit[patient := hi - lo], acc + 1))))))"

fun greedy_loop ::
  "ndarray \<Rightarrow> nat \<Rightarrow> nat list \<times> rat list \<times> nat \<Rightarrow> py_error + (nat list \<times> rat list \<times> nat)" where
  "greedy_loop B 0 sbn = Inr sbn"
| "greedy_loop B (Suc n) sbn =
     (case greedy_body B sbn of Inl e \<Rightarrow> Inl e | Inr sbn' \<Rightarrow> greedy_loop B n sbn')"

text \<open>
  \<open>get_optimum\<close> returns the dictionary patient \<open>\<rightarrow>\<close> fractions as an association list
  (\<open>dict(zip(range(num_patients), state))\<close>) together with the updated optimizer.
  \<open>range(capacity)\<close> is empty for a negative capacity.
\<close>

definition get_optimum ::
  "heuristic_optimizer \<Rightarrow> py_error + ((nat \<times> nat) list \<times> heuristic_optimizer)" where
  "get_optimum h =
     (let num_patients = shape0 (BED h);
          state = replicate num_patients 0
      in case first_gains (BED h) of
           Inl e \<Rightarrow> Inl e
         | Inr benefit \<Rightarrow>
             (case greedy_loop (BED h) (nat (capacity h))
                     (state, benefit, num_accesses h + num_patients) of
                Inl e \<Rightarrow> Inl e
              | Inr (state', benefit', acc) \<Rightarrow>
                  Inr (zip [0..<num_patients] state', h\<lparr>num_accesses := acc\<rparr>)))"

text \<open>The units handed out by an allocation.\<close>

definition total_units :: "(nat \<times> nat) list \<Rightarrow> nat" where
  "total_units sol = sum_list (map snd sol)"

text \<open>The table \<open>mock_BED_data\<close> of the test suite.\<close>

definition mock_BED :: ndarray where
  "mock_BED = array2 [[1, 10, 11], [1, 2, 3], [9, 10, 11]]"

section \<open>Benefit table estimators\<close>

subsection \<open>\<open>LinearBEDPredictor\<close>\<close>

text \<open>
  The predictor object. \<open>max_fractions_per_patient\<close> is \<open>BED.shape[1]\<close>, the number of
  unit columns. \<open>console\<close> holds the lines printed so far.
\<close>

record predictor =
  p_BED :: ndarray
  num_patients :: nat
  max_fractions_per_patient :: nat
  access_counter :: nat
  accessed :: "(nat \<times> nat) set"
  console :: "string list"

definition LinearBEDPredictor :: "ndarray \<Rightarrow> predictor" where
  "LinearBEDPredictor B =
     \<lparr>p_BED = B, num_patients = shape0 B, max_fractions_per_patient = shape1 B,
      access_counter = 0, accessed = {}, console = []\<rparr>"

text \<open>\<open>_getBED\<close>: a pair not yet in the access log is counted and logged, then the cell is read.\<close>

definition getBED :: "predictor \<Rightarrow> nat \<Rightarrow> nat \<Rightarrow> py_error + (rat \<times> predictor)" where
  "getBED p i j =
     (let p' = (if (i, j) \<notin> accessed p
                then p\<lparr>access_counter := access_counter p + 1,
                       accessed := insert (i, j) (accessed p)\<rparr>
                else p)
      in case item (p_BED p) i j of Inl e \<Rightarrow> Inl e | Inr v \<Rightarrow> Inr (v, p'))"

text \<open>A list comprehension whose element expression changes the predictor and may raise.\<close>

fun comprehension ::
  "('s \<Rightarrow> 'a \<Rightarrow> py_error + ('b \<times> 's)) \<Rightarrow> 's \<Rightarrow> 'a list \<Rightarrow> py_error + ('b list \<times> 's)" where
  "comprehension f s [] = Inr ([], s)"
| "comprehension f s (x # xs) =
     (case f s x of
        Inl e \<Rightarrow> Inl e
      | Inr (y, s') \<Rightarrow>
          (case comprehension f s' xs of
             Inl e \<Rightarrow> Inl e
           | Inr (ys, s'') \<Rightarrow> Inr (y # ys, s'')))"

text \<open>
  The range check both \<open>estimate\<close> methods start with:
  \<open>granularity <= 1 or granularity > (self.max_fractions_per_patient - 1) / 2\<close>.
\<close>

definition granularity_rejected :: "predictor \<Rightarrow> int \<Rightarrow> bool" where
  "granularity_rejected p granularity \<longleftrightarrow>
     granularity \<le> 1 \<or>
     (of_int granularity :: rat) > (of_nat (max_fractions_per_patient p) - 1) / 2"

definition diagnostic :: string where
  "diagnostic = ''Granularity should be between 2 and <num_columns/2>!''"

text \<open>
  Python floats are IEEE doubles. \<open>to_double x\<close> is the double nearest to \<open>x\<close>: 53
  significant bits, a tie going to the even significand. \<open>binary_exponent x\<close> is the
  exponent \<open>e\<close> of a positive \<open>x\<close>, with \<open>2 ^ e \<le> x < 2 ^ (e + 1)\<close>, computed from the bit
  lengths of numerator and denominator. The range of the exponent is not limited: the
  numbers rounded here are array sizes and loop counters, which are below \<open>2 ^ 63\<close>, and
  quotients and products of two of them, far inside the range of a double.
\<close>

definition binary_exponent :: "rat \<Rightarrow> int" where
  "binary_exponent x =
     (case quotient_of x of (a, b) \<Rightarrow>
        (let s = bitlen a - bitlen b
         in if power_int 2 s \<le> x then s else s - 1))"

definition round_half_even :: "rat \<Rightarrow> int" where
  "round_half_even y =
     (let n = \<lfloor>y\<rfloor>; r = y - of_int n
      in if r < 1 / 2 then n
         else if 1 / 2 < r then n + 1
         else if even n then n else n + 1)"

definition to_double :: "rat \<Rightarrow> rat" where
  "to_double x =
     (if x = 0 then 0
      else (let ulp = power_int 2 (binary_exponent \<bar>x\<bar> - 52)
            in of_int (round_half_even (x / ulp)) * ulp))"

text \<open>
  \<open>[int(i*div) for i in range(granularity)]\<close> with
  \<open>div = (max_fractions_per_patient - 1) / (granularity - 1)\<close> (\<open>dv\<close> below, and
  \<open>interp_step\<close> in the upper-bound predictor). The true division of two integers
  yields the double nearest to the quotient; in \<open>i*div\<close> the integer is converted to a
  double and the product is rounded again; \<open>int\<close> truncates towards zero. So the list
  can differ from the one exact arithmetic gives: with 31 columns and granularity 12 the
  last entry is \<open>int(11 * (30 / 11)) = 29\<close>. The entries are column indices,
  non-negative whenever the range check has passed.
\<close>

definition py_int :: "rat \<Rightarrow> int" where
  "py_int x = (if 0 \<le> x then \<lfloor>x\<rfloor> else \<lceil>x\<rceil>)"

definition sample_indices :: "predictor \<Rightarrow> int \<Rightarrow> nat list" where
  "sample_indices p granularity =
     (let dv = to_double ((of_nat (max_fractions_per_patient p) - 1) / (of_int granularity - 1))
      in map (\<lambda>i. nat (py_int (to_double (to_double (of_nat i) * dv)))) [0..<nat granularity])"

text \<open>\<open>np.reshape\<close> of a flat list into rows of a given length.\<close>

definition rows_of :: "nat \<Rightarrow> nat \<Rightarrow> 'a list \<Rightarrow> 'a list list" where
  "rows_of r c xs = map (\<lambda>i. take c (drop (i * c) xs)) [0..<r]"

definition reshape :: "rat list \<Rightarrow> nat \<Rightarrow> int \<Rightarrow> py_error + rat list list" where
  "reshape xs r c =
     (if c = - 1
      then (if r = 0 \<or> length xs mod r \<noteq> 0 then Inl ValueError
            else Inr (rows_of r (length xs div r) xs))
      else if c < 0 then Inl ValueError
      else if length xs = r * nat c then Inr (rows_of r (nat c) xs)
      else Inl ValueError)"

text \<open>
  \<open>pd.DataFrame(estimate).interpolate(axis = 1)\<close> on a row that holds the sampled values
  at the sampled columns and NaN elsewhere: linear between two neighbouring samples, the
  last sample repeated after it. The first sample of \<open>estimate\<close> is column 0, so no cell
  precedes it; the first equation is never reached from \<open>estimate\<close>. The sampled columns
  are taken in increasing order without repetition, as \<open>estimate\<close> produces them on every
  table of at most \<open>2 ^ 50\<close> columns (\<open>sample_indices_strict\<close> below).
\<close>

fun interpolate :: "(nat \<times> rat) list \<Rightarrow> nat \<Rightarrow> rat" where
  "interpolate [] c = 0"
| "interpolate [(a, v)] c = v"
| "interpolate ((a, v) # (b, w) # ps) c =
     (if c \<le> a then v
      else if c < b then v + (w - v) * of_nat (c - a) / of_nat (b - a)
      else interpolate ((b, w) # ps) c)"

definition estimate_linear :: "predictor \<Rightarrow> int \<Rightarrow> py_error + (ndarray option \<times> predictor)" where
  "estimate_linear p granularity =
     (if granularity_rejected p granularity
      then Inr (None, p\<lparr>console := console p @ [diagnostic]\<rparr>)
      else
        (let p0 = p\<lparr>access_counter := 0, accessed := {}\<rparr>;
             actual_indeces = sample_indices p granularity
         in case comprehension (\<lambda>s x. getBED s (fst x) (snd x)) p0
                   (List.product [0..<num_patients p] actual_indeces) of
              Inl e \<Rightarrow> Inl e
            | Inr (actual_values, p1) \<Rightarrow>
                (case reshape actual_values (num_patients p) (int (length actual_indeces)) of
                   Inl e \<Rightarrow> Inl e
                 | Inr sampled \<Rightarrow>
                     Inr (Some \<lparr>shape0 = num_patients p,
                                shape1 = max_fractions_per_patient p,
                                cells = map (\<lambda>vs. map (interpolate (zip actual_indeces vs))
                                                     [0..<max_fractions_per_patient p])
                                          sampled\<rparr>,
                          p1))))"

subsection \<open>\<open>BEDPredictorUpperBoundNaive\<close>\<close>

definition get_interp_gap :: "nat list \<Rightarrow> int \<Rightarrow> int \<Rightarrow> py_error + int" where
  "get_interp_gap accessed_inds start stop =
     (if start > stop then Inl ValueError
      else if start < 0 \<or> int (length accessed_inds) < stop + 1 then Inr 1
      else Inr (int (accessed_inds ! nat start) - int (accessed_inds ! nat stop)))"

text \<open>
  \<open>_get_first_n_estimates\<close>. \<open>[x] * n\<close> is empty for \<open>n \<le> 0\<close>;
  \<open>itertools.chain.from_iterable\<close> is \<open>concat\<close>; \<open>accessed_inds_rev[0]\<close> raises IndexError
  on an empty list; \<open>np.apply_along_axis\<close> raises on an array without rows.
  The cell imports \<open>chain\<close> with \<open>from itertools import chain\<close> and calls it as
  \<open>itertools.chain\<close>. Whether the name \<open>itertools\<close> is bound in the session depends on
  what \<open>from gurobipy import *\<close> brings in, and that package is not part of the
  notebook; so it is the parameter \<open>itertools_bound\<close>. When the name is not bound the
  line raises NameError, after the comprehension before it has run.
\<close>

definition first_n_element ::
  "nat list \<Rightarrow> predictor \<Rightarrow> nat \<times> nat \<times> nat \<Rightarrow> py_error + (rat list \<times> predictor)" where
  "first_n_element accessed_inds_rev s x =
     (case x of (i, ind, j) \<Rightarrow>
        (case getBED s i j of
           Inl e \<Rightarrow> Inl e
         | Inr (v, s') \<Rightarrow>
             (case get_interp_gap accessed_inds_rev (int ind) (int ind + 1) of
                Inl e \<Rightarrow> Inl e
              | Inr gap \<Rightarrow> Inr (replicate (nat gap) v, s'))))"

definition get_first_n_estimates ::
  "bool \<Rightarrow> predictor \<Rightarrow> nat list \<Rightarrow> py_error + (rat list list \<times> predictor)" where
  "get_first_n_estimates itertools_bound p accessed_inds =
     (let accessed_inds_rev = rev accessed_inds
      in case comprehension (first_n_element accessed_inds_rev) p
                (List.product [0..<num_patients p] (enumerate 0 accessed_inds_rev)) of
           Inl e \<Rightarrow> Inl e
         | Inr (first_n_estimates, p1) \<Rightarrow>
             if \<not> itertools_bound then Inl NameError
             else
               (case accessed_inds_rev of
                  [] \<Rightarrow> Inl IndexError
                | hi # _ \<Rightarrow>
                    (case reshape (concat first_n_estimates) (num_patients p) (int hi + 1) of
                       Inl e \<Rightarrow> Inl e
                     | Inr m \<Rightarrow>
                         if num_patients p = 0 then Inl ValueError
                         else Inr (map rev m, p1))))"

text \<open>
  \<open>_get_last_n_estimates\<close>. \<open>accessed_inds[-1]\<close> and \<open>accessed_inds[-2]\<close> raise IndexError
  on a list that is too short; the three reads of one element happen left to right.
\<close>

definition last_n_element ::
  "nat list \<Rightarrow> predictor \<Rightarrow> nat \<times> nat \<Rightarrow> py_error + (rat \<times> predictor)" where
  "last_n_element accessed_inds s x =
     (case x of (i, j) \<Rightarrow>
        (case getBED s i (last accessed_inds) of
           Inl e \<Rightarrow> Inl e
         | Inr (a, s1) \<Rightarrow>
             (case getBED s1 i (last accessed_inds) of
                Inl e \<Rightarrow> Inl e
              | Inr (b, s2) \<Rightarrow>
                  if length accessed_inds < 2 then Inl IndexError
                  else
                    (case getBED s2 i (last (butlast accessed_inds)) of
                       Inl e \<Rightarrow> Inl e
                     | Inr (c, s3) \<Rightarrow> Inr (a + (b - c) * (of_nat j + 1), s3)))))"

definition get_last_n_estimates ::
  "predictor \<Rightarrow> nat list \<Rightarrow> py_error + (rat list list \<times> predictor)" where
  "get_last_n_estimates p accessed_inds =
     (if accessed_inds = [] then Inl IndexError
      else
        (let last_n_est_count =
               int (max_fractions_per_patient p) - int (last accessed_inds) - 1
         in case comprehension (last_n_element accessed_inds) p
                   (List.product [0..<num_patients p] [0..<nat last_n_est_count]) of
              Inl e \<Rightarrow> Inl e
            | Inr (last_n_estimates, p1) \<Rightarrow>
                (case reshape last_n_estimates (num_patients p) last_n_est_count of
                   Inl e \<Rightarrow> Inl e
                 | Inr m \<Rightarrow> Inr (m, p1))))"

text \<open>\<open>np.c_[a, b]\<close>: the rows of \<open>a\<close> continued by the rows of \<open>b\<close>.\<close>

definition column_stack :: "rat list list \<Rightarrow> rat list list \<Rightarrow> ndarray" where
  "column_stack a b =
     \<lparr>shape0 = length a,
      shape1 = (case a of [] \<Rightarrow> 0 | r # _ \<Rightarrow> length r) + (case b of [] \<Rightarrow> 0 | r # _ \<Rightarrow> length r),
      cells = map2 (@) a b\<rparr>"

text \<open>
  \<open>BEDPredictorUpperBoundNaive.estimate\<close>, in a session in which \<open>itertools\<close> is bound or
  not.
\<close>

definition estimate_upper ::
  "bool \<Rightarrow> predictor \<Rightarrow> int \<Rightarrow> py_error + (ndarray option \<times> predictor)" where
  "estimate_upper itertools_bound p granularity =
     (if granularity_rejected p granularity
      then Inr (None, p\<lparr>console := console p @ [diagnostic]\<rparr>)
      else
        (let p0 = p\<lparr>access_counter := 0, accessed := {}\<rparr>;
             accessed_inds = sample_indices p granularity
         in if 0 \<notin> set accessed_inds then Inl NotImplementedError
            else
              (case get_first_n_estimates itertools_bound p0 accessed_inds of
                 Inl e \<Rightarrow> Inl e
               | Inr (first_n_estimates, p1) \<Rightarrow>
                   (case get_last_n_estimates p1 accessed_inds of
                      Inl e \<Rightarrow> Inl e
                    | Inr (last_n_estimates, p2) \<Rightarrow>
                        Inr (Some (column_stack first_n_estimates last_n_estimates), p2)))))"

section \<open>Accuracy evaluation harness: \<open>AccuracyHandler\<close>\<close>

text \<open>
  \<open>LPOptimizer\<close> hands the model to an external exact solver. Its \<open>get_optimum\<close> is a
  parameter here: from a matrix and a capacity to the dictionary patient \<open>\<rightarrow>\<close> fractions
  (empty when the solver reports an infeasible model).
\<close>

type_synonym lp_solver = "ndarray \<Rightarrow> int \<Rightarrow> (nat \<times> nat) list"

record accuracy_handler =
  actual_BED :: ndarray
  gran_range :: "int list"

fun sum_BED_loop :: "ndarray \<Rightarrow> (nat \<times> nat) list \<Rightarrow> rat \<Rightarrow> py_error + rat" where
  "sum_BED_loop B [] acc = Inr acc"
| "sum_BED_loop B ((i, j) # solution) acc =
     (case item B i j of Inl e \<Rightarrow> Inl e | Inr v \<Rightarrow> sum_BED_loop B solution (acc + v))"

definition sum_BED :: "accuracy_handler \<Rightarrow> ndarray \<Rightarrow> (nat \<times> nat) list \<Rightarrow> py_error + rat" where
  "sum_BED ah B solution = sum_BED_loop B solution 0"

text \<open>\<open>_run_lp_model(self, BED, capacity = 100)\<close>.\<close>

definition run_lp_model ::
  "lp_solver \<Rightarrow> accuracy_handler \<Rightarrow> ndarray \<Rightarrow> int \<Rightarrow> py_error + rat" where
  "run_lp_model solve ah B cap = (let solution = solve B cap in sum_BED ah B solution)"

definition get_true_solution :: "lp_solver \<Rightarrow> accuracy_handler \<Rightarrow> py_error + rat" where
  "get_true_solution solve ah = run_lp_model solve ah (actual_BED ah) 100"

text \<open>
  \<open>get_predictor_solution\<close>: the predictor's \<open>estimate\<close> method is the parameter \<open>est\<close>.
  When \<open>estimate\<close> returns None, the constructor of \<open>LPOptimizer\<close> reads \<open>BED.shape\<close> of
  None and raises AttributeError. The result is the dictionary granularity \<open>\<rightarrow>\<close> objective.
\<close>

fun predictor_solution_loop ::
  "lp_solver \<Rightarrow> accuracy_handler \<Rightarrow> (predictor \<Rightarrow> int \<Rightarrow> py_error + (ndarray option \<times> predictor)) \<Rightarrow>
   predictor \<Rightarrow> int list \<Rightarrow> (int \<rightharpoonup> rat) \<Rightarrow> py_error + ((int \<rightharpoonup> rat) \<times> predictor)" where
  "predictor_solution_loop solve ah est p [] result = Inr (result, p)"
| "predictor_solution_loop solve ah est p (gran # grans) result =
     (case est p gran of
        Inl e \<Rightarrow> Inl e
      | Inr (estimated, p') \<Rightarrow>
          (case estimated of
             None \<Rightarrow> Inl AttributeError
           | Some E \<Rightarrow>
               (case run_lp_model solve ah E 100 of
                  Inl e \<Rightarrow> Inl e
                | Inr v \<Rightarrow> predictor_solution_loop solve ah est p' grans (result(gran \<mapsto> v)))))"

definition get_predictor_solution ::
  "lp_solver \<Rightarrow> accuracy_handler \<Rightarrow> (predictor \<Rightarrow> int \<Rightarrow> py_error + (ndarray option \<times> predictor)) \<Rightarrow>
   predictor \<Rightarrow> py_error + ((int \<rightharpoonup> rat) \<times> predictor)" where
  "get_predictor_solution solve ah est p =
     predictor_solution_loop solve ah est p (gran_range ah) Map.empty"

section \<open>Simulated annealing for the facility-location problem\<close>

text \<open>
  The module-level data of the notebook: \<open>N = len(data)\<close>, the matrix \<open>distance\<close> and
  \<open>NUM_OPENED\<close>. \<open>DC\<close> and \<open>DA\<close> are both the set of the indices \<open>0 .. N - 1\<close>.
\<close>

record world =
  N :: nat
  distance :: "int list list"
  NUM_OPENED :: nat

definition wf_world :: "world \<Rightarrow> bool" where
  "wf_world w \<longleftrightarrow>
     length (distance w) = N w \<and> list_all (\<lambda>r. length r = N w) (distance w)"

definition DC :: "world \<Rightarrow> int set" where
  "DC w = set (map int [0..<N w])"

definition DA :: "world \<Rightarrow> int set" where
  "DA w = set (map int [0..<N w])"

text \<open>
  A numpy index along an axis of length \<open>n\<close>: a negative index counts from the end, an
  index outside \<open>-n .. n - 1\<close> raises IndexError.
\<close>

definition np_index :: "nat \<Rightarrow> int \<Rightarrow> py_error + nat" where
  "np_index n i =
     (if 0 \<le> i \<and> i < int n then Inr (nat i)
      else if - int n \<le> i \<and> i < 0 then Inr (nat (i + int n))
      else Inl IndexError)"

definition dist :: "world \<Rightarrow> int \<Rightarrow> int \<Rightarrow> py_error + int" where
  "dist w here place =
     (case np_index (length (distance w)) here of
        Inl e \<Rightarrow> Inl e
      | Inr r \<Rightarrow>
          (case np_index (length (distance w ! r)) place of
             Inl e \<Rightarrow> Inl e
           | Inr c \<Rightarrow> Inr (distance w ! r ! c)))"

text \<open>
  \<open>nearest_neighbor(here, world)\<close>. A Python set is iterated here in ascending order; the
  order only decides which of several equally near places is returned.
\<close>

fun nearest_neighbor_loop ::
  "world \<Rightarrow> int \<Rightarrow> int list \<Rightarrow> int \<times> int \<Rightarrow> py_error + (int \<times> int)" where
  "nearest_neighbor_loop w here [] mc = Inr mc"
| "nearest_neighbor_loop w here (place # places) mc =
     (case dist w here place of
        Inl e \<Rightarrow> Inl e
      | Inr d \<Rightarrow>
          if d < fst mc then nearest_neighbor_loop w here places (d, place)
          else nearest_neighbor_loop w here places mc)"

definition nearest_neighbor :: "world \<Rightarrow> int \<Rightarrow> int set \<Rightarrow> py_error + (int \<times> int)" where
  "nearest_neighbor w here places =
     nearest_neighbor_loop w here (sorted_list_of_set places) (10000, - 1)"

fun compute_cost_loop :: "world \<Rightarrow> int set \<Rightarrow> int list \<Rightarrow> int \<Rightarrow> py_error + int" where
  "compute_cost_loop w sites [] cost = Inr cost"
| "compute_cost_loop w sites (da # das) cost =
     (case nearest_neighbor w da sites of
        Inl e \<Rightarrow> Inl e
      | Inr (d, _) \<Rightarrow> compute_cost_loop w sites das (cost + d))"

definition compute_cost :: "world \<Rightarrow> int set \<Rightarrow> py_error + int" where
  "compute_cost w sites = compute_cost_loop w sites (sorted_list_of_set (DA w)) 0"

text \<open>\<open>update_temp(T, rep) = T / math.log(rep + 1)\<close>, floats idealised as reals.\<close>

definition update_temp :: "real \<Rightarrow> nat \<Rightarrow> py_error + real" where
  "update_temp t n = (if ln (real n + 1) = 0 then Inl ZeroDivisionError else Inr (t / ln (real n + 1)))"

text \<open>
  The random source is explicit: \<open>draws\<close> are the integer choices and \<open>uniforms\<close> the
  values of \<open>random.random()\<close>, both read at the position \<open>used\<close>, which every call advances.
  \<open>random.sample(population, k)\<close> picks \<open>k\<close> members one after the other without
  replacement and raises ValueError when the population is smaller than \<open>k\<close>.
\<close>

record random_source =
  draws :: "nat \<Rightarrow> nat"
  uniforms :: "nat \<Rightarrow> real"
  used :: nat

fun pick_distinct :: "(nat \<Rightarrow> nat) \<Rightarrow> nat \<Rightarrow> 'a list \<Rightarrow> nat \<Rightarrow> 'a list" where
  "pick_distinct f n xs 0 = []"
| "pick_distinct f n [] (Suc k) = []"
| "pick_distinct f n (x # xs) (Suc k) =
     (let i = f n mod length (x # xs)
      in (x # xs) ! i # pick_distinct f (Suc n) (take i (x # xs) @ drop (Suc i) (x # xs)) k)"

definition random_sample ::
  "random_source \<Rightarrow> int set \<Rightarrow> nat \<Rightarrow> py_error + (int list \<times> random_source)" where
  "random_sample r population k =
     (let xs = sorted_list_of_set population
      in if length xs < k then Inl ValueError
         else Inr (pick_distinct (draws r) (used r) xs k, r\<lparr>used := used r + k\<rparr>))"

definition random_random :: "random_source \<Rightarrow> real \<times> random_source" where
  "random_random r = (uniforms r (used r), r\<lparr>used := used r + 1\<rparr>)"

text \<open>The inner function \<open>get_neighbor\<close> of \<open>maybe_mutate\<close>.\<close>

definition get_neighbor ::
  "world \<Rightarrow> int set \<Rightarrow> random_source \<Rightarrow> py_error + (int set \<times> random_source)" where
  "get_neighbor w sites r =
     (case random_sample r sites 1 of
        Inl e \<Rightarrow> Inl e
      | Inr (smp, r') \<Rightarrow>
          (case smp of
             [] \<Rightarrow> Inl IndexError
           | previous # _ \<Rightarrow>
               (case nearest_neighbor w previous (DC w - sites) of
                  Inl e \<Rightarrow> Inl e
                | Inr (_, new) \<Rightarrow> Inr (insert new (sites - {previous}), r'))))"

text \<open>
  The entries of \<open>distance\<close> are numpy integers, the initial \<open>min_distance = 10000\<close> and
  the initial \<open>cost = 0\<close> are Python integers. So the cost \<open>compute_cost\<close> returns is a
  numpy integer as soon as one of the distances added to it was read from the matrix,
  which is the case exactly when it is below 10000, and a Python integer otherwise.
\<close>

definition numpy_cost :: "world \<Rightarrow> int set \<Rightarrow> bool" where
  "numpy_cost w sites \<longleftrightarrow>
     list_ex (\<lambda>da. case nearest_neighbor w da sites of
                       Inl e \<Rightarrow> False
                     | Inr (d, c) \<Rightarrow> d < 10000)
       (sorted_list_of_set (DA w))"

text \<open>
  \<open>math.exp\<close> raises OverflowError above the logarithm of the largest double. In
  \<open>p <= math.exp(...) or delta < 0\<close> the exponential is evaluated first. At temperature
  zero (which occurs only when \<open>start_T\<close> is zero) the division by \<open>T * 1.0\<close> depends on
  the kind of integer \<open>delta\<close> is. A Python integer raises ZeroDivisionError. A numpy
  integer gives a warning and an infinite or undefined quotient, and the move goes on:
  a negative \<open>delta\<close> gives \<open>exp(inf) = inf\<close> and the neighbour is accepted; a positive
  \<open>delta\<close> gives \<open>exp(-inf) = 0.0\<close> and the neighbour is accepted only for \<open>p = 0\<close>;
  \<open>delta = 0\<close> gives \<open>nan\<close>, which compares false, and the set is kept. Apart from
  that the floats are idealised as reals.
\<close>

definition exp_overflow_bound :: real where
  "exp_overflow_bound = 709.782712893384"

definition maybe_mutate ::
  "world \<Rightarrow> int set \<Rightarrow> real \<Rightarrow> random_source \<Rightarrow> py_error + (int set \<times> random_source)" where
  "maybe_mutate w sites t r =
     (case compute_cost w sites of
        Inl e \<Rightarrow> Inl e
      | Inr original_cost \<Rightarrow>
          (case get_neighbor w sites r of
             Inl e \<Rightarrow> Inl e
           | Inr (neighbor, r1) \<Rightarrow>
               (case compute_cost w neighbor of
                  Inl e \<Rightarrow> Inl e
                | Inr new_cost \<Rightarrow>
                    (let delta = new_cost - original_cost;
                         (p, r2) = random_random r1
                     in if t = 0
                        then (if \<not> (numpy_cost w sites \<or> numpy_cost w neighbor)
                              then Inl ZeroDivisionError
                              else if delta < 0 \<or> (0 < delta \<and> p \<le> 0)
                              then Inr (neighbor, r2)
                              else Inr (sites, r2))
                        else if exp_overflow_bound < (- 1 * real_of_int delta) / t
                        then Inl OverflowError
                        else if p \<le> exp ((- 1 * real_of_int delta) / t) \<or> delta < 0
                        then Inr (neighbor, r2)
                        else Inr (sites, r2)))))"

text \<open>The local variables of \<open>simulated_annealing\<close> and the random source.\<close>

record sa_state =
  opened :: "int set"
  optimum :: "int set"
  optimal_cost :: int
  T :: real
  rep :: nat
  rnd :: random_source

text \<open>One pass of the body of the \<open>while\<close> loop.\<close>

definition sa_body :: "world \<Rightarrow> real \<Rightarrow> sa_state \<Rightarrow> py_error + sa_state" where
  "sa_body w start_T s =
     (case maybe_mutate w (opened s) (T s) (rnd s) of
        Inl e \<Rightarrow> Inl e
      | Inr (opened', r') \<Rightarrow>
          (case compute_cost w opened' of
             Inl e \<Rightarrow> Inl e
           | Inr c \<Rightarrow>
               (let s1 = (if c < optimal_cost s
                          then s\<lparr>opened := opened', optimum := opened', optimal_cost := c,
                                 rnd := r'\<rparr>
                          else s\<lparr>opened := opened', rnd := r'\<rparr>)
                in case update_temp start_T (rep s) of
                     Inl e \<Rightarrow> Inl e
                   | Inr t' \<Rightarrow> Inr (s1\<lparr>T := t', rep := rep s + 1\<rparr>))))"

function sa_loop :: "world \<Rightarrow> real \<Rightarrow> real \<Rightarrow> int \<Rightarrow> sa_state \<Rightarrow> py_error + sa_state" where
  "sa_loop w start_T stop_T max_reps s =
     (if T s > stop_T \<and> int (rep s) < max_reps
      then (case sa_body w start_T s of
              Inl e \<Rightarrow> Inl e
            | Inr s' \<Rightarrow> sa_loop w start_T stop_T max_reps s')
      else Inr s)"
  by pat_completeness auto
termination
proof (relation "measure (\<lambda>(w, start_T, stop_T, max_reps, s). nat (max_reps - int (rep s)))")
  show "wf (measure (\<lambda>(w, start_T, stop_T, max_reps, s). nat (max_reps - int (rep s))))"
    by simp
next
  fix w :: world and start_T stop_T :: real and max_reps :: int and s s' :: sa_state
  assume c: "T s > stop_T \<and> int (rep s) < max_reps" and b: "sa_body w start_T s = Inr s'"
  from b have "rep s' = rep s + 1"
    by (auto simp: sa_body_def Let_def split: sum.splits prod.splits if_splits)
  with c show "((w, start_T, stop_T, max_reps, s'), (w, start_T, stop_T, max_reps, s))
      \<in> measure (\<lambda>(w, start_T, stop_T, max_reps, s). nat (max_reps - int (rep s)))"
    by simp
qed

text \<open>
  \<open>simulated_annealing\<close> prints the best set found and its cost (after the line
  that announces the start, which is left out) and has no \<open>return\<close>
  statement, so the caller receives None. The outcome records the final state of the
  local variables, what is printed and the value returned.
\<close>

record sa_outcome =
  final :: sa_state
  printed_set :: "int set"
  printed_cost :: int
  return_value :: "int set option"

definition simulated_annealing ::
  "world \<Rightarrow> real \<Rightarrow> real \<Rightarrow> int \<Rightarrow> random_source \<Rightarrow> py_error + sa_outcome" where
  "simulated_annealing w start_T stop_T max_reps r =
     (case random_sample r (DC w) (NUM_OPENED w) of
        Inl e \<Rightarrow> Inl e
      | Inr (smp, r1) \<Rightarrow>
          (case compute_cost w (set smp) of
             Inl e \<Rightarrow> Inl e
           | Inr c \<Rightarrow>
               (case sa_loop w start_T stop_T max_reps
                       \<lparr>opened = set smp, optimum = set smp, optimal_cost = c,
                        T = start_T, rep = 1, rnd = r1\<rparr> of
                  Inl e \<Rightarrow> Inl e
                | Inr s \<Rightarrow>
                    Inr \<lparr>final = s, printed_set = optimum s, printed_cost = optimal_cost s,
                         return_value = None\<rparr>)))"

section \<open>Auxiliary notions for the statements\<close>

text \<open>
  A predictor is consistent when its cached shape is the shape of its table, as the
  constructor sets it. Its access log is tracked when the counter is the size of the log.
  \<open>touch s X\<close> is the predictor after the cells \<open>X\<close> have been read through \<open>_getBED\<close>.
\<close>

definition consistent :: "predictor \<Rightarrow> bool" where
  "consistent p \<longleftrightarrow>
     num_patients p = shape0 (p_BED p) \<and> max_fractions_per_patient p = shape1 (p_BED p)"

definition tracked :: "predictor \<Rightarrow> bool" where
  "tracked s \<longleftrightarrow> finite (accessed s) \<and> access_counter s = card (accessed s)"

definition touch :: "predictor \<Rightarrow> (nat \<times> nat) set \<Rightarrow> predictor" where
  "touch s X = s\<lparr>access_counter := card (accessed s \<union> X), accessed := accessed s \<union> X\<rparr>"

text \<open>
  The exact quotient of the step between two sampled columns, the double \<open>div\<close> that
  \<open>estimate\<close> computes from it, and the cells \<open>estimate\<close> samples.
\<close>

definition exact_step :: "predictor \<Rightarrow> int \<Rightarrow> rat" where
  "exact_step p g = (of_nat (max_fractions_per_patient p) - 1) / (of_int g - 1)"

definition dv_of :: "predictor \<Rightarrow> int \<Rightarrow> rat" where
  "dv_of p g = to_double (exact_step p g)"

definition sampled_cells :: "predictor \<Rightarrow> int \<Rightarrow> (nat \<times> nat) set" where
  "sampled_cells p g = {0..<num_patients p} \<times> set (sample_indices p g)"

text \<open>The matrix \<open>LinearBEDPredictor.estimate\<close> returns, as a function of the table.\<close>

definition linear_matrix :: "predictor \<Rightarrow> int \<Rightarrow> ndarray" where
  "linear_matrix p g =
     (let idx = sample_indices p g
      in \<lparr>shape0 = num_patients p, shape1 = max_fractions_per_patient p,
          cells = map (\<lambda>vs. map (interpolate (zip idx vs)) [0..<max_fractions_per_patient p])
                    (rows_of (num_patients p) (length idx)
                       (map (\<lambda>x. cell (p_BED p) (fst x) (snd x))
                          (List.product [0..<num_patients p] idx)))\<rparr>)"

text \<open>
  Worlds in which the search of \<open>nearest_neighbor\<close> always finds a place: every entry
  of the matrix is below the initial \<open>min_distance = 10000\<close>. An opened set is feasible
  when it consists of \<open>NUM_OPENED\<close> site indices.
\<close>

definition near_world :: "world \<Rightarrow> bool" where
  "near_world w \<longleftrightarrow> list_all (list_all (\<lambda>d. d < 10000)) (distance w)"

definition feasible :: "world \<Rightarrow> int set \<Rightarrow> bool" where
  "feasible w S \<longleftrightarrow> S \<subseteq> DC w \<and> card S = NUM_OPENED w"



definition gap_at :: "nat list \<Rightarrow> nat \<Rightarrow> nat" where
  "gap_at xs ind = (if Suc ind < length xs then xs ! ind - xs ! Suc ind else 1)"










section \<open>Example inputs\<close>

text \<open>
  A one-patient table whose upper-bound estimate at granularity 2 is flat from column 1
  on, and an exact solver's answer for that estimate: with capacity 100 every column from
  1 to 4 is optimal for the estimated row \<open>[0, 4, 4, 4, 4]\<close>, and the solver reports
  column 1.
\<close>

definition tie_table :: ndarray where
  "tie_table = array2 [[0, 1, 2, 3, 4]]"

definition tie_solver :: lp_solver where
  "tie_solver B cap = [(0, 1)]"

definition tie_handler :: accuracy_handler where
  "tie_handler = \<lparr>actual_BED = tie_table, gran_range = [2]\<rparr>"

text \<open>A table of two patients and eleven columns, for granularities 2 to 5.\<close>

definition wide_table :: ndarray where
  "wide_table = array2 [[0, 1, 2, 3, 4, 5, 6, 7, 8, 9, 10], [0, 5, 6, 7, 8, 8, 8, 8, 9, 9, 9]]"

text \<open>
  Four sites, two of them 10000 away from every other site, two to be opened; and a random
  source whose draws select site 0 in the first move and site 1 in the second and whose
  uniform values are all 0, so that every move is accepted. The three states are those
  before the first, before the second and after the second pass of the loop.
\<close>

definition far_world :: world where
  "far_world = \<lparr>N = 4,
     distance = [[0, 10000, 10000, 10000], [10000, 0, 10000, 10000],
                 [10000, 10000, 0, 1], [10000, 10000, 1, 0]],
     NUM_OPENED = 2\<rparr>"

definition far_source :: random_source where
  "far_source = \<lparr>draws = (\<lambda>n. if n = 4 then 1 else 0), uniforms = (\<lambda>n. 0), used = 0\<rparr>"

definition far_state0 :: sa_state where
  "far_state0 = \<lparr>opened = {0, 1}, optimum = {0, 1}, optimal_cost = 20000, T = 1000, rep = 1,
     rnd = far_source\<lparr>used := 2\<rparr>\<rparr>"

definition far_state1 :: sa_state where
  "far_state1 = \<lparr>opened = {- 1, 1}, optimum = {- 1, 1}, optimal_cost = 10001, T = 1000 / ln 2,
     rep = 2, rnd = far_source\<lparr>used := 4\<rparr>\<rparr>"

definition far_state2 :: sa_state where
  "far_state2 = \<lparr>opened = {- 1}, optimum = {- 1, 1}, optimal_cost = 10001, T = 1000 / ln 3,
     rep = 3, rnd = far_source\<lparr>used := 6\<rparr>\<rparr>"

text \<open>
  Three sites on a line, one to be opened, with a source of draws and uniform values
  that are all 0; and the state after the single pass of a run with \<open>max_reps = 2\<close>.
\<close>

definition near3 :: world where
  "near3 = \<lparr>N = 3, distance = [[0, 1, 2], [1, 0, 1], [2, 1, 0]], NUM_OPENED = 1\<rparr>"

definition zero_source :: random_source where
  "zero_source = \<lparr>draws = (\<lambda>n. 0), uniforms = (\<lambda>n. 0), used = 0\<rparr>"

definition near3_final :: sa_state where
  "near3_final = \<lparr>opened = {1}, optimum = {1}, optimal_cost = 2, T = 1000 / ln 2, rep = 2,
     rnd = zero_source\<lparr>used := 3\<rparr>\<rparr>"

text \<open>Two sites that are 10000 away from every site, themselves included, one to be opened.\<close>

definition remote_world :: world where
  "remote_world = \<lparr>N = 2, distance = [[10000, 10000], [10000, 10000]], NUM_OPENED = 1\<rparr>"

text \<open>Two sites, both to be opened, the state after one pass, and a table with no patients.\<close>

definition full_world :: world where
  "full_world = \<lparr>N = 2, distance = [[0, 1], [1, 0]], NUM_OPENED = 2\<rparr>"

definition full_final :: sa_state where
  "full_final = \<lparr>opened = {- 1, 1}, optimum = {0, 1}, optimal_cost = 0, T = 1000 / ln 2, rep = 2,
     rnd = zero_source\<lparr>used := 4\<rparr>\<rparr>"

definition empty_table :: ndarray where
  "empty_table = \<lparr>shape0 = 0, shape1 = 3, cells = []\<rparr>"

text \<open>
  A table of two patients and 31 columns with non-decreasing concave rows (the first
  row rises by 2 per column; the second by 5 up to column 10 and by 3 after it), and a
  table whose only row is concave but rises and falls.
\<close>

definition long_table :: ndarray where
  "long_table =
     array2 [[0, 2, 4, 6, 8, 10, 12, 14, 16, 18, 20, 22, 24, 26, 28, 30, 32, 34, 36, 38, 40,
              42, 44, 46, 48, 50, 52, 54, 56, 58, 60],
             [0, 5, 10, 15, 20, 25, 30, 35, 40, 45, 50, 53, 56, 59, 62, 65, 68, 71, 74, 77, 80,
              83, 86, 89, 92, 95, 98, 101, 104, 107, 110]]"


section \<open>Properties of the greedy allocator\<close>

text \<open>
  What \<open>get_optimum\<close> does guarantee: every pass of the loop that does not raise hands out
  one unit and leaves every patient at or below its maximum. So an allocation that is
  returned totals exactly the capacity, and with a capacity above the sum of the maxima
  \<open>get_optimum\<close> raises on every well-formed table.
\<close>

lemma argmax_scan_bound:
  "best < i \<Longrightarrow> argmax_scan ys i best bv < i + length ys"
proof (induction ys arbitrary: i best bv)
  case Nil
  then show ?case by simp
next
  case (Cons y ys)
  have "argmax_scan ys (Suc i) i y < Suc i + length ys" by (rule Cons.IH) simp
  moreover have "argmax_scan ys (Suc i) best bv < Suc i + length ys"
    using Cons.prems by (intro Cons.IH) simp
  ultimately show ?case by simp
qed

lemma argmax_bound: "argmax xs = Inr patient \<Longrightarrow> patient < length xs"
  using argmax_scan_bound[of 0 1]
  by (cases xs) (auto simp: argmax_def)

lemma sum_list_increment:
  "k < length (xs :: nat list) \<Longrightarrow> sum_list (xs[k := Suc (xs ! k)]) = Suc (sum_list xs)"
  by (simp add: sum_list_update)

lemma greedy_body_props:
  assumes b: "greedy_body B (state, benefit, acc) = Inr (state', benefit', acc')"
    and len: "length benefit = length state"
    and bound: "\<forall>i<length state. int (state ! i) \<le> int (shape1 B) - 1"
  shows "length state' = length state \<and> length benefit' = length state \<and>
         sum_list state' = sum_list state + 1 \<and>
         (\<forall>i<length state'. int (state' ! i) \<le> int (shape1 B) - 1)"
proof -
  from b obtain patient where a: "argmax benefit = Inr patient"
    by (cases "argmax benefit") (auto simp: greedy_body_def)
  then have p: "patient < length state" using argmax_bound len by fastforce
  let ?s = "state[patient := state ! patient + 1]"
  have s': "state' = ?s" and lb: "length benefit' = length benefit"
    using b a by (auto simp: greedy_body_def Let_def split: if_splits sum.splits)
  have new: "int (?s ! patient) \<le> int (shape1 B) - 1"
  proof (cases "int (?s ! patient) = int (shape1 B) - 1")
    case True
    then show ?thesis by simp
  next
    case False
    with b a obtain hi where "item B patient (?s ! patient + 1) = Inr hi"
      by (auto simp: greedy_body_def Let_def split: if_splits sum.splits)
    then have "?s ! patient + 1 < shape1 B" by (auto simp: item_def split: if_splits)
    then show ?thesis by simp
  qed
  have "int (?s ! i) \<le> int (shape1 B) - 1" if "i < length state" for i
    using new bound that by (cases "i = patient") simp_all
  then show ?thesis using s' lb len p by (simp add: sum_list_increment)
qed

lemma greedy_loop_props:
  assumes "greedy_loop B n (state, benefit, acc) = Inr (state', benefit', acc')"
    and "length benefit = length state"
    and "\<forall>i<length state. int (state ! i) \<le> int (shape1 B) - 1"
  shows "length state' = length state \<and> sum_list state' = sum_list state + n \<and>
         (\<forall>i<length state'. int (state' ! i) \<le> int (shape1 B) - 1)"
  using assms
proof (induction n arbitrary: state benefit acc)
  case 0
  then show ?case by simp
next
  case (Suc n)
  from Suc.prems(1) obtain s1 b1 a1 where
    body: "greedy_body B (state, benefit, acc) = Inr (s1, b1, a1)" and
    rest: "greedy_loop B n (s1, b1, a1) = Inr (state', benefit', acc')"
    by (cases "greedy_body B (state, benefit, acc)") auto
  from greedy_body_props[OF body Suc.prems(2,3)]
  have p: "length s1 = length state" "length b1 = length state"
    "sum_list s1 = sum_list state + 1" "\<forall>i<length s1. int (s1 ! i) \<le> int (shape1 B) - 1"
    by simp_all
  from Suc.IH[OF rest] p show ?case by simp
qed

lemma sum_list_bounded:
  "(\<forall>i<length (xs :: nat list). xs ! i \<le> m) \<Longrightarrow> sum_list xs \<le> length xs * m"
proof (induction xs)
  case Nil
  then show ?case by simp
next
  case (Cons x xs)
  have "x \<le> m" using Cons.prems by (metis length_Cons nth_Cons_0 zero_less_Suc)
  moreover have "\<forall>i<length xs. xs ! i \<le> m" using Cons.prems by (metis Suc_less_eq length_Cons nth_Cons_Suc)
  ultimately show ?case using Cons.IH by simp
qed

lemma get_optimum_units:
  assumes wf: "wf_ndarray (BED h)" and r: "get_optimum h = Inr (sol, h')"
  shows "total_units sol = nat (capacity h) \<and>
         total_units sol \<le> shape0 (BED h) * (shape1 (BED h) - 1)"
proof -
  let ?R = "shape0 (BED h)"
  from r obtain benefit where g: "first_gains (BED h) = Inr benefit"
    by (cases "first_gains (BED h)") (auto simp: get_optimum_def)
  then have lb: "length benefit = ?R" and u2: "2 \<le> shape1 (BED h)"
    using wf by (auto simp: first_gains_def wf_ndarray_def split: if_splits)
  from r g obtain state' benefit' acc where
    l: "greedy_loop (BED h) (nat (capacity h)) (replicate ?R 0, benefit, num_accesses h + ?R) =
          Inr (state', benefit', acc)" and sol: "sol = zip [0..<?R] state'"
    by (cases "greedy_loop (BED h) (nat (capacity h))
          (replicate ?R 0, benefit, num_accesses h + ?R)")
       (auto simp: get_optimum_def Let_def)
  have "\<forall>i<length (replicate ?R (0::nat)). int (replicate ?R (0::nat) ! i) \<le> int (shape1 (BED h)) - 1"
    using u2 by simp
  from greedy_loop_props[OF l _ this] lb
  have p: "length state' = ?R" "sum_list state' = nat (capacity h)"
    "\<forall>i<length state'. int (state' ! i) \<le> int (shape1 (BED h)) - 1"
    by simp_all
  have units: "total_units sol = sum_list state'"
    using p(1) by (simp add: total_units_def sol)
  have "\<forall>i<length state'. state' ! i \<le> shape1 (BED h) - 1"
    using p(3) u2 by (auto simp: le_diff_conv2)
  from sum_list_bounded[OF this] p(1) units p(2) show ?thesis by simp
qed

lemma get_optimum_raises_beyond_maxima:
  assumes "wf_ndarray (BED h)"
    and "int (shape0 (BED h) * (shape1 (BED h) - 1)) < capacity h"
  shows "\<exists>e. get_optimum h = Inl e"
proof (cases "get_optimum h")
  case (Inl e)
  then show ?thesis by blast
next
  case (Inr x)
  obtain sol h' where "x = (sol, h')" by (cases x)
  with Inr get_optimum_units[OF assms(1), of sol h']
  have "nat (capacity h) \<le> shape0 (BED h) * (shape1 (BED h) - 1)" by simp
  with assms(2) show ?thesis by linarith
qed

text \<open>
  C4 (saturation). The claim: with a capacity at or above the sum of the patients'
  maximum units every patient receives its maximum; on the test matrix
  \<open>[[1,10,11],[1,2,3],[9,10,11]]\<close> any capacity of at least 6 gives every patient 2 units.
  The code does so at capacity 6 exactly. At capacity 7 all gains are the sentinel 0 after
  six passes, \<open>np.argmax\<close> selects patient 0 again, its count becomes 3, which differs from
  the maximum 2, and the read of \<open>BED[0, 4]\<close> raises IndexError.
\<close>

theorem get_optimum_mock_capacity_6_and_7:
  "map_sum id fst (get_optimum (HeuristicOptimizer mock_BED 6)) = Inr [(0, 2), (1, 2), (2, 2)] \<and>
   get_optimum (HeuristicOptimizer mock_BED 7) = Inl IndexError"
  by code_simp

text \<open>
  C3 (units used). The claim: for every capacity \<open>c\<close> the units handed out are
  \<open>min(c, sum of maxima)\<close>. With the constructor's default capacity 100 the test matrix
  has 6 units to hand out, and the code raises IndexError instead of returning an
  allocation of 6 units; a table with a flat row raises already at a capacity equal to
  the sum of the maxima.
\<close>

theorem get_optimum_default_capacity_raises:
  "get_optimum (HeuristicOptimizer mock_BED 100) = Inl IndexError \<and>
   get_optimum (HeuristicOptimizer (array2 [[0, 1], [0, 0]]) 2) = Inl IndexError"
  by code_simp

section \<open>Properties of the evaluation harness\<close>

lemma run_lp_model_ignores_actual:
  "run_lp_model solve (ah\<lparr>actual_BED := A\<rparr>) B cap = run_lp_model solve ah B cap"
  by (simp add: run_lp_model_def sum_BED_def)

lemma predictor_solution_loop_ignores_actual:
  "predictor_solution_loop solve (ah\<lparr>actual_BED := A\<rparr>) est p grans result =
   predictor_solution_loop solve ah est p grans result"
  by (induction grans arbitrary: p result)
     (simp_all add: run_lp_model_ignores_actual split: sum.splits prod.splits option.splits)

text \<open>
  C1 (score against the real table). The claim, and the docstring of \<open>_run_lp_model\<close>:
  the estimated matrix decides the allocation, the real matrix scores it. The code scores
  with the matrix it solved, so the objective it reports does not depend on the real
  table at all. On \<open>tie_table\<close> at granularity 2 the upper-bound estimate (in a session
  that binds \<open>itertools\<close>) is \<open>[0, 4, 4, 4, 4]\<close>; for the allocation of one unit to patient 0 the harness reports 4,
  the estimated value, where the real table gives 1.
\<close>

theorem get_predictor_solution_scores_estimate:
  "(\<forall>solve ah A est p.
      get_predictor_solution solve (ah\<lparr>actual_BED := A\<rparr>) est p =
      get_predictor_solution solve ah est p) \<and>
   map_sum id fst (estimate_upper True (LinearBEDPredictor tie_table) 2) =
     Inr (Some \<lparr>shape0 = 1, shape1 = 5, cells = [[0, 4, 4, 4, 4]]\<rparr>) \<and>
   map_sum id (\<lambda>x. fst x 2)
     (get_predictor_solution tie_solver tie_handler (estimate_upper True)
        (LinearBEDPredictor tie_table)) = Inr (Some 4) \<and>
   sum_BED tie_handler (actual_BED tie_handler) [(0, 1)] = Inr 1"
proof -
  have indep: "\<forall>solve ah A est p.
      get_predictor_solution solve (ah\<lparr>actual_BED := A\<rparr>) est p =
      get_predictor_solution solve ah est p"
    by (simp add: get_predictor_solution_def predictor_solution_loop_ignores_actual)
  have est: "map_sum id fst (estimate_upper True (LinearBEDPredictor tie_table) 2) =
     Inr (Some \<lparr>shape0 = 1, shape1 = 5, cells = [[0, 4, 4, 4, 4]]\<rparr>)"
    by code_simp
  have reported: "map_sum id (\<lambda>x. fst x 2)
     (get_predictor_solution tie_solver tie_handler (estimate_upper True)
        (LinearBEDPredictor tie_table)) = Inr (Some 4)"
    by code_simp
  have real: "sum_BED tie_handler (actual_BED tie_handler) [(0, 1)] = Inr 1"
    by code_simp
  from indep est reported real show ?thesis by blast
qed

section \<open>Properties of the estimators\<close>

subsection \<open>Rounding to a double\<close>

text \<open>
  The exponent brackets a positive number between two neighbouring powers of two, so the
  rounding error of \<open>to_double\<close> is at most half a unit in the last place, which is at most
  \<open>x / 2 ^ 53\<close>; and every natural number below \<open>2 ^ 53\<close> is a double.
\<close>

lemma bitlen_pos: "0 < a \<Longrightarrow> 1 \<le> bitlen a"
  using bitlen_eq_zero_iff[of a] bitlen_nonneg[of a] by linarith

lemma bitlen_rat_bounds:
  assumes "0 < a"
  shows "power_int 2 (bitlen a - 1) \<le> (of_int a :: rat)"
    and "(of_int a :: rat) < power_int 2 (bitlen a)"
proof -
  note l = bitlen_pos[OF assms]
  from bitlen_bounds[OF assms] have lo: "2 ^ nat (bitlen a - 1) \<le> a" and hi: "a < 2 ^ nat (bitlen a)"
    by simp_all
  from lo have "(of_int (2 ^ nat (bitlen a - 1)) :: rat) \<le> of_int a"
    by (simp only: of_int_le_iff)
  then show "power_int 2 (bitlen a - 1) \<le> (of_int a :: rat)"
    using l by (simp add: power_int_def)
  from hi have "(of_int a :: rat) < of_int (2 ^ nat (bitlen a))"
    by (simp only: of_int_less_iff)
  then show "(of_int a :: rat) < power_int 2 (bitlen a)"
    using l by (simp add: power_int_def)
qed

lemma binary_exponent_bounds:
  assumes "0 < x"
  shows "power_int 2 (binary_exponent x) \<le> x"
    and "x < power_int 2 (binary_exponent x + 1)"
proof -
  obtain a b where q: "quotient_of x = (a, b)" by (cases "quotient_of x")
  have b: "0 < b" using quotient_of_denom_pos[OF q] .
  have x: "x = of_int a / of_int b" using quotient_of_div[OF q] .
  have a: "0 < a" using assms b x by (simp add: zero_less_divide_iff)
  define s where "s = bitlen a - bitlen b"
  have B: "(0::rat) < of_int b" using b by simp
  have "x < power_int 2 (bitlen a) / of_int b"
    unfolding x using bitlen_rat_bounds(2)[OF a] B by (simp add: divide_strict_right_mono)
  also have "\<dots> \<le> power_int 2 (bitlen a) / power_int 2 (bitlen b - 1)"
    using bitlen_rat_bounds(1)[OF b] B by (intro divide_left_mono mult_pos_pos) simp_all
  also have "\<dots> = power_int 2 (bitlen a - (bitlen b - 1))"
    by (rule power_int_diff[symmetric]) simp
  also have "bitlen a - (bitlen b - 1) = s + 1" by (simp add: s_def)
  finally have up: "x < power_int 2 (s + 1)" .
  have "s - 1 = bitlen a - 1 - bitlen b" by (simp add: s_def)
  then have "power_int 2 (s - 1) = power_int (2::rat) (bitlen a - 1 - bitlen b)" by (simp only:)
  also have "\<dots> = power_int 2 (bitlen a - 1) / (power_int 2 (bitlen b) :: rat)"
    by (rule power_int_diff) simp
  also have "\<dots> \<le> of_int a / power_int 2 (bitlen b)"
    using bitlen_rat_bounds(1)[OF a] by (intro divide_right_mono) simp_all
  also have "\<dots> \<le> x"
    unfolding x using bitlen_rat_bounds(2)[OF b] a B by (intro divide_left_mono mult_pos_pos) simp_all
  finally have lo: "power_int 2 (s - 1) \<le> x" .
  have e: "binary_exponent x = (if power_int 2 s \<le> x then s else s - 1)"
    by (simp add: binary_exponent_def q s_def Let_def)
  show "power_int 2 (binary_exponent x) \<le> x" using lo by (simp add: e)
  show "x < power_int 2 (binary_exponent x + 1)" using up by (auto simp: e not_le)
qed

lemma round_half_even_error: "\<bar>of_int (round_half_even y) - y\<bar> \<le> 1 / 2"
proof -
  have "of_int \<lfloor>y\<rfloor> \<le> y" "y < of_int \<lfloor>y\<rfloor> + 1" by linarith+
  then show ?thesis by (auto simp: round_half_even_def Let_def)
qed

lemma round_half_even_of_int: "round_half_even (of_int m) = m"
  by (simp add: round_half_even_def)

lemma to_double_error:
  assumes "0 < x"
  shows "\<bar>to_double x - x\<bar> \<le> x / 2 ^ 53"
proof -
  define e where "e = binary_exponent x"
  define u :: rat where "u = power_int 2 (e - 52)"
  have u: "0 < u" by (simp add: u_def)
  have ue: "u * 2 ^ 52 = power_int 2 e"
    by (simp add: u_def power_int_diff)
  have "power_int 2 e \<le> x" unfolding e_def by (rule binary_exponent_bounds(1)[OF assms])
  with ue have ux: "u * 2 ^ 52 \<le> x" by simp
  have td: "to_double x = of_int (round_half_even (x / u)) * u"
    using assms by (simp add: to_double_def Let_def u_def e_def)
  have "to_double x - x = (of_int (round_half_even (x / u)) - x / u) * u"
    using u by (simp add: td field_simps)
  then have "\<bar>to_double x - x\<bar> = \<bar>of_int (round_half_even (x / u)) - x / u\<bar> * u"
    using u by (simp only: abs_mult abs_of_pos)
  also have "\<dots> \<le> (1 / 2) * u"
    using round_half_even_error[of "x / u"] u by (intro mult_right_mono) simp_all
  also have "\<dots> \<le> x / 2 ^ 53" using ux by simp
  finally show ?thesis .
qed

lemma to_double_near:
  assumes "0 \<le> x" and "x \<le> 2 ^ 50"
  shows "\<bar>to_double x - x\<bar> \<le> 1 / 8" and "0 \<le> to_double x"
proof -
  have e: "\<bar>to_double x - x\<bar> \<le> x / 2 ^ 53"
  proof (cases "x = 0")
    case True
    then show ?thesis by (simp add: to_double_def)
  next
    case False
    with assms(1) have "0 < x" by simp
    then show ?thesis by (rule to_double_error)
  qed
  have "x / 2 ^ 53 \<le> 1 / 8" using assms(2) by simp
  with e show "\<bar>to_double x - x\<bar> \<le> 1 / 8" by linarith
  have "x / 2 ^ 53 \<le> x" using assms(1) by (simp add: field_simps)
  with e show "0 \<le> to_double x" by linarith
qed

lemma to_double_of_nat:
  assumes "n < 2 ^ 53"
  shows "to_double (of_nat n) = of_nat n"
proof (cases "n = 0")
  case True
  then show ?thesis by (simp add: to_double_def)
next
  case False
  define x :: rat where "x = of_nat n"
  have "(of_nat n :: rat) < of_nat (2 ^ 53)" using assms by (simp only: of_nat_less_iff)
  then have x2: "x < 2 ^ 53" by (simp only: x_def of_nat_power of_nat_numeral)
  have x1: "1 \<le> x" using False by (simp add: x_def Suc_le_eq)
  define e where "e = binary_exponent x"
  have pos: "0 < x" using x1 by simp
  note b = binary_exponent_bounds[OF pos, folded e_def]
  have e0: "0 \<le> e"
  proof (rule ccontr)
    assume "\<not> 0 \<le> e"
    then have "e + 1 \<le> 0" by simp
    then have "power_int (2::rat) (e + 1) \<le> power_int 2 0"
      by (intro power_int_increasing) simp_all
    with b(2) x1 show False by simp
  qed
  have e52: "e \<le> 52"
  proof (rule ccontr)
    assume "\<not> e \<le> 52"
    then have "53 \<le> e" by simp
    then have "power_int (2::rat) 53 \<le> power_int 2 e"
      by (intro power_int_increasing) simp_all
    with b(1) x2 show False by simp
  qed
  define k where "k = nat (52 - e)"
  have u: "power_int (2::rat) (e - 52) = 1 / 2 ^ k"
    using e52 by (simp add: power_int_def k_def field_simps)
  have "x / (1 / 2 ^ k) = of_int (int n * 2 ^ k)" by (simp add: x_def)
  then have r: "round_half_even (x / (1 / 2 ^ k)) = int n * 2 ^ k"
    by (simp only: round_half_even_of_int)
  have "to_double x = of_int (round_half_even (x / (1 / 2 ^ k))) * (1 / 2 ^ k)"
    using pos by (simp add: to_double_def Let_def e_def[symmetric] u)
  also have "\<dots> = of_int (int n * 2 ^ k) * (1 / 2 ^ k)" by (simp only: r)
  also have "\<dots> = x" by (simp add: x_def)
  finally show ?thesis by (simp add: x_def)
qed

subsection \<open>Errors and console output of the helper methods\<close>

lemma comprehension_invariant:
  assumes "comprehension f s xs = Inr (ys, s')" and "I s"
    and "\<And>s x y s'. x \<in> set xs \<Longrightarrow> I s \<Longrightarrow> f s x = Inr (y, s') \<Longrightarrow> I s'"
  shows "I s'"
  using assms
proof (induction xs arbitrary: s ys)
  case Nil
  then show ?case by simp
next
  case (Cons x xs)
  from Cons.prems(1) obtain y s1 ys1 where
    fx: "f s x = Inr (y, s1)" and rest: "comprehension f s1 xs = Inr (ys1, s')"
    by (auto split: sum.splits prod.splits)
  have "I s1" using Cons.prems(2,3) fx by (meson list.set_intros(1))
  then show ?case using Cons.IH[OF rest] Cons.prems(3) by (meson list.set_intros(2))
qed

lemma comprehension_error:
  "comprehension f s xs = Inl e \<Longrightarrow> \<exists>s1 x. x \<in> set xs \<and> f s1 x = Inl e"
proof (induction xs arbitrary: s)
  case Nil
  then show ?case by simp
next
  case (Cons x xs)
  show ?case
  proof (cases "f s x")
    case (Inl e')
    with Cons.prems have "e' = e" by simp
    with Inl show ?thesis by auto
  next
    case (Inr ys)
    obtain y s1 where ys: "ys = (y, s1)" by (cases ys)
    with Inr Cons.prems have "comprehension f s1 xs = Inl e"
      by (auto split: sum.splits prod.splits)
    from Cons.IH[OF this] show ?thesis by auto
  qed
qed

lemma getBED_error: "getBED s i j = Inl e \<Longrightarrow> e = IndexError"
  by (auto simp: getBED_def item_def Let_def split: if_splits)

lemma getBED_console: "getBED s i j = Inr (v, s') \<Longrightarrow> console s' = console s"
  by (auto simp: getBED_def item_def Let_def split: if_splits)

lemma reshape_error: "reshape xs r c = Inl e \<Longrightarrow> e = ValueError"
  by (auto simp: reshape_def split: if_splits)

lemma get_interp_gap_error: "get_interp_gap xs a b = Inl e \<Longrightarrow> e = ValueError"
  by (auto simp: get_interp_gap_def split: if_splits)

lemma first_n_element_error:
  "first_n_element r s x = Inl e \<Longrightarrow> e = IndexError \<or> e = ValueError"
  by (auto simp: first_n_element_def split: prod.splits sum.splits
      dest: getBED_error get_interp_gap_error)

lemma first_n_element_console:
  "first_n_element r s x = Inr (v, s') \<Longrightarrow> console s' = console s"
  by (auto simp: first_n_element_def split: prod.splits sum.splits dest: getBED_console)

lemma last_n_element_error:
  "last_n_element r s x = Inl e \<Longrightarrow> e = IndexError"
  by (auto simp: last_n_element_def split: prod.splits sum.splits if_splits
      dest: getBED_error)

lemma last_n_element_console:
  "last_n_element r s x = Inr (v, s') \<Longrightarrow> console s' = console s"
  apply (auto simp: last_n_element_def split: prod.splits sum.splits if_splits)
  apply (metis getBED_console)
  done

lemma get_first_n_estimates_error:
  "get_first_n_estimates b p inds = Inl e \<Longrightarrow> e = IndexError \<or> e = ValueError \<or> e = NameError"
  by (auto simp: get_first_n_estimates_def Let_def
      split: prod.splits sum.splits list.splits if_splits
      dest!: comprehension_error first_n_element_error reshape_error)

lemma get_last_n_estimates_error:
  "get_last_n_estimates p inds = Inl e \<Longrightarrow> e = IndexError \<or> e = ValueError"
  by (auto simp: get_last_n_estimates_def Let_def
      split: prod.splits sum.splits list.splits if_splits
      dest!: comprehension_error last_n_element_error reshape_error)

lemma get_first_n_estimates_console:
  "get_first_n_estimates b p inds = Inr (m, p') \<Longrightarrow> console p' = console p"
  by (auto simp: get_first_n_estimates_def Let_def
      split: prod.splits sum.splits list.splits if_splits
      elim!: comprehension_invariant[where I = "\<lambda>s. console s = console p"]
      dest: first_n_element_console)

lemma get_last_n_estimates_console:
  "get_last_n_estimates p inds = Inr (m, p') \<Longrightarrow> console p' = console p"
  by (auto simp: get_last_n_estimates_def Let_def
      split: prod.splits sum.splits list.splits if_splits
      elim!: comprehension_invariant[where I = "\<lambda>s. console s = console p"]
      dest: last_n_element_console)

lemma granularity_rejected_iff:
  "granularity_rejected p g \<longleftrightarrow>
     \<not> (2 \<le> g \<and> (of_int g :: rat) \<le> (of_nat (max_fractions_per_patient p) - 1) / 2)"
  by (auto simp: granularity_rejected_def)

lemma accepted_bounds:
  assumes "\<not> granularity_rejected p g"
  shows "2 \<le> g" and "2 * g \<le> int (max_fractions_per_patient p) - 1"
proof -
  from assms show g2: "2 \<le> g" by (auto simp: granularity_rejected_def)
  from assms have "(of_int g :: rat) \<le> (of_nat (max_fractions_per_patient p) - 1) / 2"
    by (auto simp: granularity_rejected_def)
  then have "(of_int (2 * g) :: rat) \<le> of_int (int (max_fractions_per_patient p) - 1)"
    by simp
  then show "2 * g \<le> int (max_fractions_per_patient p) - 1"
    by (simp only: of_int_le_iff)
qed

lemma sample_indices_hd:
  assumes "\<not> granularity_rejected p g"
  shows "sample_indices p g \<noteq> []" and "hd (sample_indices p g) = 0"
proof -
  from accepted_bounds(1)[OF assms] have "0 < nat g" by simp
  then have u: "[0..<nat g] = 0 # [1..<nat g]" by (simp add: upt_rec)
  show "sample_indices p g \<noteq> []" by (simp add: sample_indices_def Let_def u)
  show "hd (sample_indices p g) = 0"
    by (simp add: sample_indices_def Let_def u py_int_def to_double_def)
qed


subsection \<open>The sampled columns and the access log\<close>

lemma touch_simps [simp]:
  "p_BED (touch s X) = p_BED s"
  "num_patients (touch s X) = num_patients s"
  "max_fractions_per_patient (touch s X) = max_fractions_per_patient s"
  "console (touch s X) = console s"
  "accessed (touch s X) = accessed s \<union> X"
  "access_counter (touch s X) = card (accessed s \<union> X)"
  by (simp_all add: touch_def)

lemma touch_touch: "touch (touch s X) Y = touch s (X \<union> Y)"
  by (simp add: touch_def Un_assoc)

lemma touch_empty: "tracked s \<Longrightarrow> touch s {} = s"
  by (simp add: touch_def tracked_def)

lemma tracked_touch: "tracked s \<Longrightarrow> finite X \<Longrightarrow> tracked (touch s X)"
  by (simp add: tracked_def)

lemma getBED_touch:
  assumes "tracked s" and "i < shape0 (p_BED s)" and "j < shape1 (p_BED s)"
  shows "getBED s i j = Inr (cell (p_BED s) i j, touch s {(i, j)})"
proof (cases "(i, j) \<in> accessed s")
  case True
  then have "insert (i, j) (accessed s) = accessed s" by auto
  with assms True show ?thesis
    by (simp add: getBED_def item_def cell_def touch_def tracked_def)
next
  case False
  with assms show ?thesis
    by (simp add: getBED_def item_def cell_def touch_def tracked_def)
qed

lemma comprehension_touch:
  assumes step: "\<And>s x. x \<in> set xs \<Longrightarrow> tracked s \<Longrightarrow> p_BED s = B \<Longrightarrow>
            f s x = Inr (val x, touch s (fp x))"
    and fin: "\<And>x. x \<in> set xs \<Longrightarrow> finite (fp x)"
    and "tracked s" and "p_BED s = B"
  shows "comprehension f s xs = Inr (map val xs, touch s (\<Union>x\<in>set xs. fp x))"
  using assms
proof (induction xs arbitrary: s)
  case Nil
  then show ?case by (simp add: touch_empty)
next
  case (Cons x xs)
  have fx: "f s x = Inr (val x, touch s (fp x))"
    using Cons.prems by simp
  have tr: "tracked (touch s (fp x))"
    using Cons.prems by (simp add: tracked_touch)
  have "comprehension f (touch s (fp x)) xs =
          Inr (map val xs, touch (touch s (fp x)) (\<Union>x\<in>set xs. fp x))"
    using Cons.prems tr by (intro Cons.IH) simp_all
  with fx show ?case by (simp add: touch_touch)
qed

text \<open>
  On a table of at most \<open>2 ^ 50\<close> columns every rounding in the computation of the sampled
  columns moves a value by at most \<open>1 / 8\<close>, while two successive products differ by the
  step, which is at least \<open>15 / 8\<close>. So the sampled columns increase strictly and stay
  inside the table, although the last of them need not be the last column.
\<close>

lemma sample_indices_length: "length (sample_indices p g) = nat g"
  by (simp add: sample_indices_def Let_def)

lemma exact_step_bounds:
  assumes "\<not> granularity_rejected p g"
  shows "2 \<le> exact_step p g"
    and "exact_step p g \<le> of_nat (max_fractions_per_patient p)"
    and "(of_int g - 1) * exact_step p g = of_nat (max_fractions_per_patient p) - 1"
proof -
  note b = accepted_bounds[OF assms]
  have pos: "(1::rat) \<le> of_int g - 1" using b(1) by simp
  have "(2::rat) * (of_int g - 1) \<le> of_int (2 * g)" by simp
  also have "\<dots> \<le> of_int (int (max_fractions_per_patient p) - 1)"
    using b(2) by (simp only: of_int_le_iff)
  finally have n: "(2::rat) * (of_int g - 1) \<le> of_nat (max_fractions_per_patient p) - 1"
    by simp
  with pos show "2 \<le> exact_step p g" by (simp add: exact_step_def pos_le_divide_eq)
  show m: "(of_int g - 1) * exact_step p g = of_nat (max_fractions_per_patient p) - 1"
    using pos by (simp add: exact_step_def)
  have "0 \<le> exact_step p g" using \<open>2 \<le> exact_step p g\<close> by simp
  then have "1 * exact_step p g \<le> (of_int g - 1) * exact_step p g"
    using pos by (intro mult_right_mono) simp_all
  with m show "exact_step p g \<le> of_nat (max_fractions_per_patient p)" by simp
qed

lemma small_table:
  assumes "max_fractions_per_patient p \<le> 2 ^ 50"
  shows "(of_nat (max_fractions_per_patient p) :: rat) \<le> 2 ^ 50"
proof -
  have "(of_nat (max_fractions_per_patient p) :: rat) \<le> of_nat (2 ^ 50)"
    using assms by (simp only: of_nat_le_iff)
  then show ?thesis by (simp only: of_nat_power of_nat_numeral)
qed

lemma dv_of_bounds:
  assumes ok: "\<not> granularity_rejected p g" and small: "max_fractions_per_patient p \<le> 2 ^ 50"
  shows "15 / 8 \<le> dv_of p g"
    and "dv_of p g \<le> exact_step p g + exact_step p g / 2 ^ 53"
proof -
  note q = exact_step_bounds[OF ok]
  have pos: "0 < exact_step p g" using q(1) by simp
  have e: "\<bar>dv_of p g - exact_step p g\<bar> \<le> exact_step p g / 2 ^ 53"
    unfolding dv_of_def by (rule to_double_error[OF pos])
  then show "dv_of p g \<le> exact_step p g + exact_step p g / 2 ^ 53" by linarith
  have "exact_step p g \<le> 2 ^ 50" using q(2) small_table[OF small] by linarith
  then have "exact_step p g / 2 ^ 53 \<le> 1 / 8" by simp
  with e q(1) show "15 / 8 \<le> dv_of p g" by linarith
qed

lemma product_bounds:
  assumes ok: "\<not> granularity_rejected p g" and small: "max_fractions_per_patient p \<le> 2 ^ 50"
    and i: "i < nat g"
  shows "0 \<le> of_nat i * dv_of p g"
    and "of_nat i * dv_of p g \<le> of_nat (max_fractions_per_patient p) - 1 + 1 / 8"
proof -
  note q = exact_step_bounds[OF ok] and d = dv_of_bounds[OF ok small]
  show "0 \<le> of_nat i * dv_of p g" using d(1) by simp
  have ig: "(of_nat i :: rat) \<le> of_int g - 1"
  proof -
    from i have "int i \<le> g - 1" by linarith
    then have "(of_int (int i) :: rat) \<le> of_int (g - 1)" by (simp only: of_int_le_iff)
    then show ?thesis by simp
  qed
  have g1: "(0::rat) \<le> of_int g - 1" using ig of_nat_0_le_iff[of i, where 'a = rat] by linarith
  have "of_nat i * dv_of p g \<le> (of_int g - 1) * dv_of p g"
    using ig d(1) by (intro mult_right_mono) simp_all
  also have "\<dots> \<le> (of_int g - 1) * (exact_step p g + exact_step p g / 2 ^ 53)"
    using d(2) g1 by (intro mult_left_mono)
  also have "\<dots> = (of_int g - 1) * exact_step p g + (of_int g - 1) * exact_step p g / 2 ^ 53"
    by (simp only: distrib_left times_divide_eq_right)
  also have "\<dots> = (of_nat (max_fractions_per_patient p) - 1) +
      (of_nat (max_fractions_per_patient p) - 1) / 2 ^ 53"
    by (simp only: q(3))
  also have "\<dots> \<le> of_nat (max_fractions_per_patient p) - 1 + 1 / 8"
  proof -
    have "(of_nat (max_fractions_per_patient p) :: rat) - 1 \<le> 2 ^ 50"
      using small_table[OF small] by linarith
    then have "(of_nat (max_fractions_per_patient p) - 1) / 2 ^ 53 \<le> 2 ^ 50 / (2 ^ 53 :: rat)"
      by (rule divide_right_mono) simp
    also have "\<dots> = 1 / 8" by simp
    finally show ?thesis by (simp only: add_left_mono)
  qed
  finally show "of_nat i * dv_of p g \<le> of_nat (max_fractions_per_patient p) - 1 + 1 / 8" .
qed

lemma rounded_product:
  assumes ok: "\<not> granularity_rejected p g" and small: "max_fractions_per_patient p \<le> 2 ^ 50"
    and i: "i < nat g"
  shows "\<bar>to_double (of_nat i * dv_of p g) - of_nat i * dv_of p g\<bar> \<le> 1 / 8"
    and "0 \<le> to_double (of_nat i * dv_of p g)"
proof -
  note b = product_bounds[OF ok small i]
  have "of_nat i * dv_of p g \<le> 2 ^ 50" using b(2) small_table[OF small] by linarith
  from to_double_near[OF b(1) this]
  show "\<bar>to_double (of_nat i * dv_of p g) - of_nat i * dv_of p g\<bar> \<le> 1 / 8"
    and "0 \<le> to_double (of_nat i * dv_of p g)" by simp_all
qed

lemma sample_indices_nth:
  assumes ok: "\<not> granularity_rejected p g" and small: "max_fractions_per_patient p \<le> 2 ^ 50"
    and i: "i < nat g"
  shows "sample_indices p g ! i = nat \<lfloor>to_double (of_nat i * dv_of p g)\<rfloor>"
proof -
  note b = accepted_bounds[OF ok]
  have "int (max_fractions_per_patient p) \<le> int (2 ^ 50)"
    using small by (simp only: of_nat_le_iff)
  then have "int (max_fractions_per_patient p) \<le> 1125899906842624" by simp
  with i b have "i < 1125899906842624" by linarith
  then have "i < 2 ^ 53" by simp
  then have c: "to_double (of_nat i) = (of_nat i :: rat)" by (rule to_double_of_nat)
  show ?thesis using i rounded_product(2)[OF ok small i]
    by (simp add: sample_indices_def Let_def py_int_def c dv_of_def exact_step_def)
qed

lemma sample_indices_strict:
  assumes ok: "\<not> granularity_rejected p g" and small: "max_fractions_per_patient p \<le> 2 ^ 50"
  shows "sorted_wrt (<) (sample_indices p g)"
proof -
  have "sample_indices p g ! i < sample_indices p g ! j"
    if "i < j" "j < nat g" for i j
  proof -
    let ?x = "\<lambda>n. of_nat n * dv_of p g"
    have i: "i < nat g" using that by simp
    note d = dv_of_bounds[OF ok small]
    note ri = rounded_product[OF ok small i] and rj = rounded_product[OF ok small that(2)]
    have "?x i + dv_of p g = of_nat (Suc i) * dv_of p g" by (simp add: algebra_simps)
    also have "\<dots> \<le> ?x j"
      using that(1) d(1) by (intro mult_right_mono) (simp_all add: Suc_le_eq)
    finally have "?x i + dv_of p g \<le> ?x j" .
    with d(1) ri(1) rj(1) have "to_double (?x i) + 1 \<le> to_double (?x j)" by linarith
    then have "\<lfloor>to_double (?x i) + 1\<rfloor> \<le> \<lfloor>to_double (?x j)\<rfloor>" by (rule floor_mono)
    then have "\<lfloor>to_double (?x i)\<rfloor> < \<lfloor>to_double (?x j)\<rfloor>" by simp
    moreover have "0 \<le> \<lfloor>to_double (?x i)\<rfloor>" using ri(2) by simp
    ultimately have "nat \<lfloor>to_double (?x i)\<rfloor> < nat \<lfloor>to_double (?x j)\<rfloor>" by linarith
    then show ?thesis
      by (simp only: sample_indices_nth[OF ok small i] sample_indices_nth[OF ok small that(2)])
  qed
  then show ?thesis
    by (simp add: sorted_wrt_iff_nth_less sample_indices_length)
qed

lemma sample_indices_bound:
  assumes ok: "\<not> granularity_rejected p g" and small: "max_fractions_per_patient p \<le> 2 ^ 50"
    and j: "j \<in> set (sample_indices p g)"
  shows "j < max_fractions_per_patient p"
proof -
  from j obtain i where i: "i < nat g" "sample_indices p g ! i = j"
    by (auto simp: in_set_conv_nth sample_indices_length)
  let ?x = "of_nat i * dv_of p g"
  note b = product_bounds[OF ok small i(1)] and r = rounded_product[OF ok small i(1)]
  have "to_double ?x < of_nat (max_fractions_per_patient p)" using b(2) r(1) by linarith
  then have "to_double ?x < of_int (int (max_fractions_per_patient p))" by simp
  then have "\<lfloor>to_double ?x\<rfloor> < int (max_fractions_per_patient p)" by (simp only: floor_less_iff)
  moreover have "0 \<le> \<lfloor>to_double ?x\<rfloor>" using r(2) by simp
  ultimately have "nat \<lfloor>to_double ?x\<rfloor> < max_fractions_per_patient p" by linarith
  then show ?thesis using i(2) by (simp only: sample_indices_nth[OF ok small i(1)])
qed

lemma sample_indices_distinct:
  "\<not> granularity_rejected p g \<Longrightarrow> max_fractions_per_patient p \<le> 2 ^ 50 \<Longrightarrow>
     distinct (sample_indices p g)"
  using sample_indices_strict[of p g] by (simp add: strict_sorted_iff)

lemma estimate_linear_run:
  assumes inv: "consistent p" and ok: "\<not> granularity_rejected p g"
    and small: "max_fractions_per_patient p \<le> 2 ^ 50"
  shows "estimate_linear p g =
           Inr (Some (linear_matrix p g),
                touch (p\<lparr>access_counter := 0, accessed := {}\<rparr>) (sampled_cells p g))"
proof -
  let ?p0 = "p\<lparr>access_counter := 0, accessed := {}\<rparr>"
  let ?xs = "List.product [0..<num_patients p] (sample_indices p g)"
  let ?val = "\<lambda>x. cell (p_BED p) (fst x) (snd x)"
  have tr: "tracked ?p0" by (simp add: tracked_def)
  have step: "getBED s (fst x) (snd x) = Inr (?val x, touch s {x})"
    if "x \<in> set ?xs" "tracked s" "p_BED s = p_BED p" for s x
  proof -
    from that(1) have "fst x < num_patients p" "snd x \<in> set (sample_indices p g)"
      by auto
    then have "fst x < shape0 (p_BED s)" "snd x < shape1 (p_BED s)"
      using inv that(3) sample_indices_bound[OF ok small] by (auto simp: consistent_def)
    from getBED_touch[OF that(2) this] that(3) show ?thesis by simp
  qed
  have "comprehension (\<lambda>s x. getBED s (fst x) (snd x)) ?p0 ?xs =
          Inr (map ?val ?xs, touch ?p0 (\<Union>x\<in>set ?xs. {x}))"
    by (rule comprehension_touch[where B = "p_BED p"]) (use step tr in simp_all)
  moreover have "(\<Union>x\<in>set ?xs. {x}) = sampled_cells p g"
    by (auto simp: sampled_cells_def)
  moreover have "reshape (map ?val ?xs) (num_patients p) (int (length (sample_indices p g))) =
          Inr (rows_of (num_patients p) (length (sample_indices p g)) (map ?val ?xs))"
    by (simp add: reshape_def)
  ultimately show ?thesis
    using ok by (simp add: estimate_linear_def linear_matrix_def Let_def)
qed

lemma card_sampled_cells:
  assumes ok: "\<not> granularity_rejected p g" and small: "max_fractions_per_patient p \<le> 2 ^ 50"
  shows "card (sampled_cells p g) = num_patients p * nat g"
  using sample_indices_distinct[OF ok small]
  by (simp add: sampled_cells_def card_cartesian_product distinct_card sample_indices_length)


subsection \<open>The claims about the estimators\<close>

text \<open>
  With 31 columns and granularity 12 the step is the double nearest to \<open>30 / 11\<close>, and
  eleven times that step rounds to a double just below 30: the last sampled column is 29.
\<close>

lemma long_table_indices:
  "sample_indices (LinearBEDPredictor long_table) 12 =
     [0, 2, 5, 8, 10, 13, 16, 19, 21, 24, 27, 29]"
  by code_simp

text \<open>
  C10 (the anchor column). For every granularity that passes the range check of the
  upper-bound estimator, the list of sampled columns starts with \<open>int(0 * interp_step) = 0\<close>,
  so column 0 is in it and \<open>estimate\<close> never raises the NotImplementedError of the
  missing-anchor branch, whether or not the session binds \<open>itertools\<close>.
\<close>

theorem sample_indices_contain_zero:
  "\<not> granularity_rejected p g \<Longrightarrow>
     hd (sample_indices p g) = 0 \<and> 0 \<in> set (sample_indices p g) \<and>
     estimate_upper b p g \<noteq> Inl NotImplementedError"
proof -
  assume ok: "\<not> granularity_rejected p g"
  note h = sample_indices_hd[OF ok]
  from h have mem: "0 \<in> set (sample_indices p g)"
    by (metis hd_in_set)
  have "estimate_upper b p g \<noteq> Inl NotImplementedError"
    using ok mem
    by (auto simp: estimate_upper_def Let_def split: sum.splits prod.splits
        dest: get_first_n_estimates_error get_last_n_estimates_error)
  with h mem show ?thesis by simp
qed

theorem sample_indices_contain_zero_witness:
  "\<not> granularity_rejected (LinearBEDPredictor wide_table) 4 \<and>
   hd (sample_indices (LinearBEDPredictor wide_table) 4) = 0 \<and>
   0 \<in> set (sample_indices (LinearBEDPredictor wide_table) 4) \<and>
   estimate_upper True (LinearBEDPredictor wide_table) 4 \<noteq> Inl NotImplementedError \<and>
   estimate_upper False (LinearBEDPredictor wide_table) 4 \<noteq> Inl NotImplementedError"
proof -
  have ok: "\<not> granularity_rejected (LinearBEDPredictor wide_table) 4" by code_simp
  from sample_indices_contain_zero[OF ok, of True] sample_indices_contain_zero[OF ok, of False] ok
  show ?thesis by simp
qed

text \<open>
  C7 (range check). A granularity is rejected exactly when it lies outside
  \<open>[2, (U - 1) / 2]\<close>, \<open>U\<close> the number of unit columns. On a rejected granularity both
  \<open>estimate\<close> methods print the diagnostic and return None, leaving the predictor
  otherwise unchanged. On a granularity inside the range neither returns None nor prints:
  whatever is returned is a matrix, and the console is as before. For the upper-bound
  estimator this holds whether or not the session binds \<open>itertools\<close>.
\<close>

theorem estimate_validates_granularity:
  "(granularity_rejected p g \<longleftrightarrow>
      \<not> (2 \<le> g \<and> (of_int g :: rat) \<le> (of_nat (max_fractions_per_patient p) - 1) / 2)) \<and>
   (granularity_rejected p g \<longrightarrow>
      estimate_linear p g = Inr (None, p\<lparr>console := console p @ [diagnostic]\<rparr>) \<and>
      estimate_upper b p g = Inr (None, p\<lparr>console := console p @ [diagnostic]\<rparr>)) \<and>
   (\<not> granularity_rejected p g \<longrightarrow>
      (\<forall>r p'. estimate_linear p g = Inr (r, p') \<longrightarrow> r \<noteq> None \<and> console p' = console p) \<and>
      (\<forall>r p'. estimate_upper b p g = Inr (r, p') \<longrightarrow> r \<noteq> None \<and> console p' = console p))"
proof (intro conjI impI allI)
  show "granularity_rejected p g \<longleftrightarrow>
      \<not> (2 \<le> g \<and> (of_int g :: rat) \<le> (of_nat (max_fractions_per_patient p) - 1) / 2)"
    by (rule granularity_rejected_iff)
next
  assume "granularity_rejected p g"
  then show "estimate_linear p g = Inr (None, p\<lparr>console := console p @ [diagnostic]\<rparr>)"
    by (simp add: estimate_linear_def)
next
  assume "granularity_rejected p g"
  then show "estimate_upper b p g = Inr (None, p\<lparr>console := console p @ [diagnostic]\<rparr>)"
    by (simp add: estimate_upper_def)
next
  fix r p'
  assume ok: "\<not> granularity_rejected p g" and e: "estimate_linear p g = Inr (r, p')"
  from ok e show "r \<noteq> None"
    by (auto simp: estimate_linear_def Let_def split: sum.splits prod.splits)
  from ok e obtain vs where
    "comprehension (\<lambda>s x. getBED s (fst x) (snd x)) (p\<lparr>access_counter := 0, accessed := {}\<rparr>)
       (List.product [0..<num_patients p] (sample_indices p g)) = Inr (vs, p')"
    by (auto simp: estimate_linear_def Let_def split: sum.splits prod.splits)
  then show "console p' = console p"
    by (rule comprehension_invariant[where I = "\<lambda>s. console s = console p"])
       (auto dest: getBED_console)
next
  fix r p'
  assume ok: "\<not> granularity_rejected p g" and e: "estimate_upper b p g = Inr (r, p')"
  from ok e show "r \<noteq> None"
    by (auto simp: estimate_upper_def Let_def split: sum.splits prod.splits if_splits)
  from ok e show "console p' = console p"
    by (auto simp: estimate_upper_def Let_def split: sum.splits prod.splits if_splits
        dest!: get_first_n_estimates_console get_last_n_estimates_console)
qed

theorem estimate_validates_granularity_witness:
  "granularity_rejected (LinearBEDPredictor wide_table) 6 \<and>
   granularity_rejected (LinearBEDPredictor wide_table) 1 \<and>
   estimate_linear (LinearBEDPredictor wide_table) 6 =
     Inr (None, (LinearBEDPredictor wide_table)\<lparr>console := [diagnostic]\<rparr>) \<and>
   estimate_upper True (LinearBEDPredictor wide_table) 1 =
     Inr (None, (LinearBEDPredictor wide_table)\<lparr>console := [diagnostic]\<rparr>) \<and>
   \<not> granularity_rejected (LinearBEDPredictor wide_table) 5 \<and>
   (\<exists>m p'. estimate_linear (LinearBEDPredictor wide_table) 5 = Inr (Some m, p') \<and> console p' = []) \<and>
   (\<exists>m p'. estimate_upper True (LinearBEDPredictor wide_table) 5 = Inr (Some m, p') \<and> console p' = [])"
proof -
  let ?p = "LinearBEDPredictor wide_table"
  have r6: "granularity_rejected ?p 6" by code_simp
  have r1: "granularity_rejected ?p 1" by code_simp
  have a5: "\<not> granularity_rejected ?p 5" by code_simp
  have c: "console ?p = []" by (simp add: LinearBEDPredictor_def)
  have "case estimate_linear ?p 5 of Inl e \<Rightarrow> False | Inr v \<Rightarrow> True" by code_simp
  then obtain rl pl where l: "estimate_linear ?p 5 = Inr (rl, pl)"
    by (cases "estimate_linear ?p 5") auto
  have "case estimate_upper True ?p 5 of Inl e \<Rightarrow> False | Inr v \<Rightarrow> True" by code_simp
  then obtain ru pu where u: "estimate_upper True ?p 5 = Inr (ru, pu)"
    by (cases "estimate_upper True ?p 5") auto
  from estimate_validates_granularity[of ?p 6 True] r6 c
  have e6: "estimate_linear ?p 6 = Inr (None, ?p\<lparr>console := [diagnostic]\<rparr>)" by simp
  from estimate_validates_granularity[of ?p 1 True] r1 c
  have e1: "estimate_upper True ?p 1 = Inr (None, ?p\<lparr>console := [diagnostic]\<rparr>)" by simp
  from estimate_validates_granularity[of ?p 5 True] a5 l u c
  have "rl \<noteq> None \<and> console pl = []" and "ru \<noteq> None \<and> console pu = []" by simp_all
  with l u have
    "\<exists>m p'. estimate_linear ?p 5 = Inr (Some m, p') \<and> console p' = []"
    "\<exists>m p'. estimate_upper True ?p 5 = Inr (Some m, p') \<and> console p' = []"
    by auto
  with r6 r1 a5 e6 e1 show ?thesis by blast
qed

text \<open>
  C6 (cost of the linear estimate). For a consistent predictor over \<open>R\<close> patients, a
  table of at most \<open>2 ^ 50\<close> columns and a granularity \<open>g\<close> in range, the \<open>g\<close> sampled
  columns are distinct, \<open>estimate\<close> succeeds, reads exactly the cells of every patient at
  the sampled columns, which are \<open>R * g\<close> distinct cells, and leaves the access counter at
  \<open>R * g\<close>. A second call on the resulting predictor returns the same matrix and leaves
  the same count: the log and the counter are reset at the start of the call. The bound
  on the columns keeps the doubles of the index computation exact enough; a table that
  fits into memory satisfies it.
\<close>

theorem estimate_linear_access_count:
  assumes inv: "consistent p" and ok: "\<not> granularity_rejected p g"
    and small: "max_fractions_per_patient p \<le> 2 ^ 50"
  shows "length (sample_indices p g) = nat g \<and> distinct (sample_indices p g) \<and>
         (\<exists>m p'. estimate_linear p g = Inr (Some m, p') \<and>
            accessed p' = {0..<num_patients p} \<times> set (sample_indices p g) \<and>
            card (accessed p') = num_patients p * nat g \<and>
            access_counter p' = num_patients p * nat g \<and>
            (\<exists>p''. estimate_linear p' g = Inr (Some m, p'') \<and>
               access_counter p'' = access_counter p'))"
proof -
  let ?p' = "touch (p\<lparr>access_counter := 0, accessed := {}\<rparr>) (sampled_cells p g)"
  have first: "estimate_linear p g = Inr (Some (linear_matrix p g), ?p')"
    by (rule estimate_linear_run[OF inv ok small])
  have inv': "consistent ?p'" using inv by (simp add: consistent_def)
  have ok': "\<not> granularity_rejected ?p' g" using ok by (simp add: granularity_rejected_def)
  have small': "max_fractions_per_patient ?p' \<le> 2 ^ 50" using small by simp
  have same: "sample_indices (touch (p\<lparr>access_counter := 0, accessed := {}\<rparr>) X) g =
      sample_indices p g" for X
    by (simp add: sample_indices_def)
  have cells': "sampled_cells ?p' g = sampled_cells p g"
    by (simp add: sampled_cells_def same)
  have m': "linear_matrix ?p' g = linear_matrix p g"
    by (simp add: linear_matrix_def same)
  have reset: "?p'\<lparr>access_counter := 0, accessed := {}\<rparr> = p\<lparr>access_counter := 0, accessed := {}\<rparr>"
    by (simp add: touch_def)
  have second: "estimate_linear ?p' g = Inr (Some (linear_matrix p g), ?p')"
    using estimate_linear_run[OF inv' ok' small'] by (simp only: cells' m' reset)
  have acc: "accessed ?p' = {0..<num_patients p} \<times> set (sample_indices p g)"
    by (simp add: sampled_cells_def)
  have cnt: "access_counter ?p' = num_patients p * nat g"
    using card_sampled_cells[OF ok small] by simp
  have crd: "card (accessed ?p') = num_patients p * nat g"
    using card_sampled_cells[OF ok small] by simp
  have "\<exists>m p'. estimate_linear p g = Inr (Some m, p') \<and>
            accessed p' = {0..<num_patients p} \<times> set (sample_indices p g) \<and>
            card (accessed p') = num_patients p * nat g \<and>
            access_counter p' = num_patients p * nat g \<and>
            (\<exists>p''. estimate_linear p' g = Inr (Some m, p'') \<and>
               access_counter p'' = access_counter p')"
    using first second acc cnt crd by blast
  with sample_indices_length[of p g] sample_indices_distinct[OF ok small] show ?thesis
    by simp
qed

text \<open>
  An instance with 31 columns and granularity 12, where the doubles make the last sampled
  column 29 and not 30.
\<close>

theorem estimate_linear_access_count_witness:
  "consistent (LinearBEDPredictor long_table) \<and>
   \<not> granularity_rejected (LinearBEDPredictor long_table) 12 \<and>
   max_fractions_per_patient (LinearBEDPredictor long_table) \<le> 2 ^ 50 \<and>
   sample_indices (LinearBEDPredictor long_table) 12 =
     [0, 2, 5, 8, 10, 13, 16, 19, 21, 24, 27, 29] \<and>
   (\<exists>m p'. estimate_linear (LinearBEDPredictor long_table) 12 = Inr (Some m, p') \<and>
      accessed p' = {0..<2} \<times> {0, 2, 5, 8, 10, 13, 16, 19, 21, 24, 27, 29} \<and>
      access_counter p' = 24 \<and>
      (\<exists>p''. estimate_linear p' 12 = Inr (Some m, p'') \<and> access_counter p'' = 24))"
proof -
  let ?p = "LinearBEDPredictor long_table"
  have c: "consistent ?p"
    by (simp add: consistent_def LinearBEDPredictor_def)
  have ok: "\<not> granularity_rejected ?p 12" by code_simp
  have u: "max_fractions_per_patient ?p = 31" by code_simp
  have small: "max_fractions_per_patient ?p \<le> 2 ^ 50" by (simp add: u)
  have n: "num_patients ?p = 2" by code_simp
  note idx = long_table_indices
  from estimate_linear_access_count[OF c ok small] obtain m p' p'' where
    "estimate_linear ?p 12 = Inr (Some m, p')"
    "accessed p' = {0..<num_patients ?p} \<times> set (sample_indices ?p 12)"
    "access_counter p' = num_patients ?p * nat 12"
    "estimate_linear p' 12 = Inr (Some m, p'')" "access_counter p'' = access_counter p'"
    by blast
  then have "estimate_linear ?p 12 = Inr (Some m, p') \<and>
      accessed p' = {0..<2} \<times> {0, 2, 5, 8, 10, 13, 16, 19, 21, 24, 27, 29} \<and>
      access_counter p' = 24 \<and>
      estimate_linear p' 12 = Inr (Some m, p'') \<and> access_counter p'' = 24"
    by (simp add: n idx)
  then have "\<exists>m p'. estimate_linear ?p 12 = Inr (Some m, p') \<and>
      accessed p' = {0..<2} \<times> {0, 2, 5, 8, 10, 13, 16, 19, 21, 24, 27, 29} \<and>
      access_counter p' = 24 \<and>
      (\<exists>p''. estimate_linear p' 12 = Inr (Some m, p'') \<and> access_counter p'' = 24)"
    by blast
  with c ok small idx show ?thesis by blast
qed

section \<open>The upper-bound estimator\<close>

lemma get_interp_gap_enumerate:
  "get_interp_gap xs (int ind) (int ind + 1) = Inr (int (gap_at xs ind)) \<or>
   (Suc ind < length xs \<and> xs ! ind < xs ! Suc ind \<and>
    get_interp_gap xs (int ind) (int ind + 1) = Inr (int (xs ! ind) - int (xs ! Suc ind)))"
proof (cases "Suc ind < length xs")
  case True
  have s: "nat (int ind + 1) = Suc ind" by simp
  show ?thesis using True
    by (cases "xs ! ind < xs ! Suc ind") (simp_all add: get_interp_gap_def gap_at_def s)
next
  case False
  then show ?thesis by (simp add: get_interp_gap_def gap_at_def)
qed

lemma nat_gap:
  "get_interp_gap xs (int ind) (int ind + 1) = Inr g \<Longrightarrow> nat g = gap_at xs ind"
  using get_interp_gap_enumerate[of xs ind] by (auto simp: gap_at_def)
































section \<open>Properties of the annealing solver\<close>

lemma far_costs:
  "compute_cost far_world {0, 1} = Inr 20000"
  "compute_cost far_world {- 1, 1} = Inr 10001"
  "compute_cost far_world {- 1} = Inr 20001"
  by code_simp+

lemma far_neighbors:
  "nearest_neighbor far_world 0 (DC far_world - {0, 1}) = Inr (10000, - 1)"
  "nearest_neighbor far_world 1 (DC far_world - {- 1, 1}) = Inr (10000, - 1)"
  by code_simp+

lemma far_lists:
  "sorted_list_of_set (DC far_world) = [0, 1, 2, 3]"
  "sorted_list_of_set {0, 1 :: int} = [0, 1]"
  "sorted_list_of_set {- 1, 1 :: int} = [- 1, 1]"
  by code_simp+

lemma ln2: "0 < ln (2::real)" "ln (2::real) < 1"
  using ln_2_less_1 by simp_all

lemma far_sample:
  "random_sample far_source (DC far_world) (NUM_OPENED far_world) =
     Inr ([0, 1], far_source\<lparr>used := 2\<rparr>)"
proof -
  have k: "NUM_OPENED far_world = Suc (Suc 0)" by (simp add: far_world_def)
  have u: "far_source\<lparr>used := 2\<rparr> = far_source\<lparr>used := Suc (Suc 0)\<rparr>" by (simp add: numeral_2_eq_2)
  show ?thesis
    unfolding u
    by (simp add: random_sample_def far_lists k far_source_def)
qed

lemma far_step1:
  "maybe_mutate far_world {0, 1} 1000 (far_source\<lparr>used := 2\<rparr>) =
     Inr ({- 1, 1}, far_source\<lparr>used := 4\<rparr>)"
  by (simp add: maybe_mutate_def far_costs get_neighbor_def random_sample_def far_lists
      far_neighbors random_random_def far_source_def exp_overflow_bound_def)

lemma far_step2:
  "maybe_mutate far_world {- 1, 1} (1000 / ln 2) (far_source\<lparr>used := 4\<rparr>) =
     Inr ({- 1}, far_source\<lparr>used := 6\<rparr>)"
proof -
  have s: "insert (- 1) ({- 1, 1} - {1 :: int}) = {- 1}" by auto
  have neg: "- (10000 * ln (2::real) / 1000) < 0" using ln2 by simp
  have "0 < exp_overflow_bound" by (simp add: exp_overflow_bound_def)
  with neg have e: "\<not> exp_overflow_bound < - (10000 * ln (2::real) / 1000)"
    by linarith
  show ?thesis
    using ln2(1) e
    by (simp add: maybe_mutate_def far_costs get_neighbor_def random_sample_def far_lists
      far_neighbors random_random_def far_source_def s)
qed

lemma far_body1: "sa_body far_world 1000 far_state0 = Inr far_state1"
  by (simp add: sa_body_def far_state0_def far_state1_def far_step1 far_costs update_temp_def)

lemma far_body2: "sa_body far_world 1000 far_state1 = Inr far_state2"
  by (simp add: sa_body_def far_state1_def far_state2_def far_step2 far_costs update_temp_def)

lemma far_loop: "sa_loop far_world 1000 (1 / 1000) 3 far_state0 = Inr far_state2"
proof -
  have t1: "(1::real) / 1000 < 1000 / ln 2"
  proof -
    have "(1::real) / 1000 < 1000" by simp
    also have "\<dots> < 1000 / ln 2" using ln2 by (simp add: field_simps)
    finally show ?thesis .
  qed
  have t2: "ln (2::real) < 1000000" using ln2 by linarith
  have f: "T far_state0 = 1000" "rep far_state0 = 1" "T far_state1 = 1000 / ln 2"
    "rep far_state1 = 2" "rep far_state2 = 3"
    by (simp_all add: far_state0_def far_state1_def far_state2_def)
  have l2: "sa_loop far_world 1000 (1 / 1000) 3 far_state2 = Inr far_state2"
    by (subst sa_loop.simps) (simp add: f del: sa_loop.simps)
  have l1: "sa_loop far_world 1000 (1 / 1000) 3 far_state1 = Inr far_state2"
    by (subst sa_loop.simps) (simp add: f t1 t2 far_body2 l2 del: sa_loop.simps)
  show ?thesis
    by (subst sa_loop.simps) (simp add: f far_body1 l1 del: sa_loop.simps)
qed

text \<open>
  The claim C5 as stated fails on \<open>far_world\<close>: no closed site is nearer than 10000 to
  site 0 or site 1, \<open>nearest_neighbor\<close> returns its initial \<open>closest = -1\<close>, the first
  move puts \<open>-1\<close> into the opened set and the second, removing site 1 and adding \<open>-1\<close>
  again, leaves a set of one element where two sites are to be opened. The printed best
  set contains \<open>-1\<close>, which is no site index, and the caller receives None.
\<close>

theorem simulated_annealing_counterexample:
  "map_sum id (\<lambda>out. (opened (final out), printed_set out, printed_cost out, return_value out))
     (simulated_annealing far_world 1000 (1 / 1000) 3 far_source) =
     Inr ({- 1}, {- 1, 1}, 10001, None) \<and>
   NUM_OPENED far_world = 2 \<and> card {- 1 :: int} = 1 \<and> - 1 \<notin> DC far_world"
proof -
  have "simulated_annealing far_world 1000 (1 / 1000) 3 far_source =
      Inr \<lparr>final = far_state2, printed_set = optimum far_state2,
           printed_cost = optimal_cost far_state2, return_value = None\<rparr>"
    using far_loop
    by (simp add: simulated_annealing_def far_sample far_costs far_state0_def)
  moreover have "- 1 \<notin> DC far_world" by (auto simp: DC_def)
  ultimately show ?thesis by (simp add: far_state2_def far_world_def)
qed

lemma finite_DC: "finite (DC w)"
  by (simp add: DC_def)

lemma card_DC: "card (DC w) = N w"
proof -
  have "distinct (map int [0..<N w])" by (simp add: distinct_map inj_on_def)
  then have "card (set (map int [0..<N w])) = length (map int [0..<N w])"
    by (rule distinct_card)
  then show ?thesis by (simp add: DC_def)
qed

lemma DC_iff: "x \<in> DC w \<longleftrightarrow> 0 \<le> x \<and> x < int (N w)"
proof
  assume "x \<in> DC w"
  then show "0 \<le> x \<and> x < int (N w)" by (auto simp: DC_def)
next
  assume "0 \<le> x \<and> x < int (N w)"
  then have "nat x \<in> {0..<N w}" "x = int (nat x)" by auto
  then show "x \<in> DC w" unfolding DC_def by (metis image_eqI set_map set_upt)
qed

lemma dist_in_range:
  assumes "wf_world w" "near_world w" "here \<in> DC w" "place \<in> DC w"
  shows "\<exists>d. dist w here place = Inr d \<and> d < 10000"
proof -
  from assms(3,4) have h: "0 \<le> here" "here < int (N w)" "0 \<le> place" "place < int (N w)"
    by (simp_all add: DC_iff)
  from assms(1) have len: "length (distance w) = N w"
    and rows: "\<forall>r\<in>set (distance w). length r = N w"
    by (simp_all add: wf_world_def list_all_iff)
  have r: "distance w ! nat here \<in> set (distance w)" using h len by simp
  then have lr: "length (distance w ! nat here) = N w" using rows by blast
  have "distance w ! nat here ! nat place \<in> set (distance w ! nat here)"
    using h lr by simp
  moreover have "\<forall>d\<in>set (distance w ! nat here). d < 10000"
    using assms(2) r by (simp add: near_world_def list_all_iff)
  ultimately have "distance w ! nat here ! nat place < 10000" by blast
  then show ?thesis using h len lr by (simp add: dist_def np_index_def)
qed

lemma nearest_neighbor_loop_result:
  assumes "\<forall>place\<in>set places. \<exists>d. dist w here place = Inr d"
  shows "\<exists>d c. nearest_neighbor_loop w here places mc = Inr (d, c) \<and>
           ((d, c) = mc \<or> (c \<in> set places \<and> d < fst mc))"
  using assms
proof (induction places arbitrary: mc)
  case Nil
  then show ?case by (cases mc) simp
next
  case (Cons place places)
  from Cons.prems obtain d0 where d0: "dist w here place = Inr d0" by auto
  have rest: "\<forall>place\<in>set places. \<exists>d. dist w here place = Inr d" using Cons.prems by simp
  show ?case
  proof (cases "d0 < fst mc")
    case True
    from Cons.IH[OF rest, of "(d0, place)"] obtain d c where
      "nearest_neighbor_loop w here places (d0, place) = Inr (d, c)"
      "(d, c) = (d0, place) \<or> (c \<in> set places \<and> d < d0)" by auto
    with True d0 show ?thesis by auto
  next
    case False
    from Cons.IH[OF rest, of mc] obtain d c where
      "nearest_neighbor_loop w here places mc = Inr (d, c)"
      "(d, c) = mc \<or> (c \<in> set places \<and> d < fst mc)" by auto
    with False d0 show ?thesis by auto
  qed
qed

lemma nearest_neighbor_member:
  assumes "wf_world w" "near_world w" "here \<in> DC w" "places \<subseteq> DC w" "places \<noteq> {}"
  shows "\<exists>d c. nearest_neighbor w here places = Inr (d, c) \<and> c \<in> places"
proof -
  have fin: "finite places" using assms(4) finite_DC by (rule finite_subset)
  let ?xs = "sorted_list_of_set places"
  have set_xs: "set ?xs = places" using fin by simp
  then have "?xs \<noteq> []" using assms(5) by auto
  then obtain x xs where xs: "?xs = x # xs" by (cases ?xs) auto
  have x: "x \<in> places" using set_xs xs by (metis list.set_intros(1))
  from dist_in_range[OF assms(1,2,3)] x assms(4)
  obtain d0 where d0: "dist w here x = Inr d0" "d0 < 10000" by blast
  have "\<forall>place\<in>set xs. \<exists>d. dist w here place = Inr d"
    using dist_in_range[OF assms(1,2,3)] assms(4) set_xs xs
    by (metis insert_iff list.simps(15) subsetD)
  from nearest_neighbor_loop_result[OF this, of "(d0, x)"] obtain d c where
    "nearest_neighbor_loop w here xs (d0, x) = Inr (d, c)"
    "(d, c) = (d0, x) \<or> (c \<in> set xs \<and> d < d0)" by auto
  moreover have "set xs \<subseteq> places" using set_xs xs by (metis set_subset_Cons)
  ultimately show ?thesis using d0 x by (auto simp: nearest_neighbor_def xs)
qed

lemma pick_distinct_props:
  "distinct xs \<Longrightarrow> k \<le> length xs \<Longrightarrow>
     distinct (pick_distinct f n xs k) \<and> set (pick_distinct f n xs k) \<subseteq> set xs \<and>
     length (pick_distinct f n xs k) = k"
proof (induction k arbitrary: xs n)
  case 0
  then show ?case by simp
next
  case (Suc k)
  then obtain y ys where xs: "xs = y # ys" by (cases xs) auto
  let ?i = "f n mod length xs"
  let ?rest = "take ?i xs @ drop (Suc ?i) xs"
  have i: "?i < length xs" using xs by simp
  have id: "xs = take ?i xs @ xs ! ?i # drop (Suc ?i) xs"
    using i by (rule id_take_nth_drop)
  have d: "distinct (take ?i xs @ xs ! ?i # drop (Suc ?i) xs)"
    using Suc.prems(1) id by simp
  have dr: "distinct ?rest" using d by auto
  have notin: "xs ! ?i \<notin> set ?rest" using d by auto
  have sub: "set ?rest \<subseteq> set xs"
    by (metis Un_least set_append set_drop_subset set_take_subset)
  have len: "length ?rest = length xs - 1" using i by auto
  have "k \<le> length ?rest" using Suc.prems(2) len by simp
  from Suc.IH[OF dr this, of "Suc n"]
  have ih: "distinct (pick_distinct f (Suc n) ?rest k)"
    "set (pick_distinct f (Suc n) ?rest k) \<subseteq> set ?rest"
    "length (pick_distinct f (Suc n) ?rest k) = k" by simp_all
  have unfold: "pick_distinct f n xs (Suc k) = xs ! ?i # pick_distinct f (Suc n) ?rest k"
    by (simp add: xs Let_def)
  have "xs ! ?i \<in> set xs" using i by simp
  with ih notin sub show ?case unfolding unfold by auto
qed

lemma random_sample_props:
  assumes "finite population"
  shows "random_sample r population k =
           (if card population < k then Inl ValueError
            else Inr (pick_distinct (draws r) (used r) (sorted_list_of_set population) k,
                      r\<lparr>used := used r + k\<rparr>))"
    and "k \<le> card population \<Longrightarrow>
           card (set (pick_distinct (draws r) (used r) (sorted_list_of_set population) k)) = k \<and>
           set (pick_distinct (draws r) (used r) (sorted_list_of_set population) k) \<subseteq> population"
proof -
  show "random_sample r population k =
           (if card population < k then Inl ValueError
            else Inr (pick_distinct (draws r) (used r) (sorted_list_of_set population) k,
                      r\<lparr>used := used r + k\<rparr>))"
    by (simp add: random_sample_def Let_def)
  assume k: "k \<le> card population"
  have "distinct (sorted_list_of_set population)" by simp
  moreover have "k \<le> length (sorted_list_of_set population)" using k by simp
  ultimately have p: "distinct (pick_distinct (draws r) (used r) (sorted_list_of_set population) k)"
    "set (pick_distinct (draws r) (used r) (sorted_list_of_set population) k)
       \<subseteq> set (sorted_list_of_set population)"
    "length (pick_distinct (draws r) (used r) (sorted_list_of_set population) k) = k"
    using pick_distinct_props by blast+
  from p(1,3) have "card (set (pick_distinct (draws r) (used r) (sorted_list_of_set population) k)) = k"
    by (simp add: distinct_card)
  with p(2) assms
  show "card (set (pick_distinct (draws r) (used r) (sorted_list_of_set population) k)) = k \<and>
           set (pick_distinct (draws r) (used r) (sorted_list_of_set population) k) \<subseteq> population"
    by simp
qed

lemma feasible_finite: "feasible w S \<Longrightarrow> finite S"
  unfolding feasible_def using finite_DC by (metis finite_subset)

lemma get_neighbor_swap:
  assumes w: "wf_world w" "near_world w" and k: "NUM_OPENED w < N w"
    and S: "feasible w S" and g: "get_neighbor w S r = Inr (S', r')"
  shows "\<exists>previous\<in>S. \<exists>new\<in>DC w - S. S' = insert new (S - {previous})"
proof -
  have fin: "finite S" using S by (rule feasible_finite)
  from S have sub: "S \<subseteq> DC w" and card: "card S = NUM_OPENED w" by (simp_all add: feasible_def)
  from g obtain smp where smp: "random_sample r S 1 = Inr (smp, r')"
    by (auto simp: get_neighbor_def split: sum.splits prod.splits list.splits)
  then have c1: "1 \<le> card S" and smp_eq:
    "smp = pick_distinct (draws r) (used r) (sorted_list_of_set S) 1"
    using random_sample_props(1)[OF fin, of r 1] by (auto split: if_splits)
  from random_sample_props(2)[OF fin c1, of r] smp_eq
  have "card (set smp) = 1" "set smp \<subseteq> S" by simp_all
  then obtain previous rest where sm: "smp = previous # rest" and prev: "previous \<in> S"
    by (cases smp) auto
  have closed_sub: "DC w - S \<subseteq> DC w" by blast
  have "card (DC w - S) = N w - NUM_OPENED w"
    using sub fin card by (simp add: card_Diff_subset card_DC)
  then have "0 < card (DC w - S)" using k by simp
  then have "DC w - S \<noteq> {}" by (simp add: card_gt_0_iff)
  from nearest_neighbor_member[OF w _ closed_sub this, of previous] prev sub
  obtain d new where nn: "nearest_neighbor w previous (DC w - S) = Inr (d, new)"
    and new: "new \<in> DC w - S" by blast
  from g smp sm nn have "S' = insert new (S - {previous})"
    by (simp add: get_neighbor_def)
  with prev new show ?thesis by blast
qed

lemma swap_feasible:
  assumes "feasible w S" "previous \<in> S" "new \<in> DC w - S"
  shows "feasible w (insert new (S - {previous}))"
proof -
  have fin: "finite S" using assms(1) by (rule feasible_finite)
  have "card (insert new (S - {previous})) = Suc (card (S - {previous}))"
    using fin assms(3) by simp
  also have "\<dots> = card S" using fin assms(2) by (rule card.remove[symmetric])
  finally show ?thesis using assms by (auto simp: feasible_def)
qed

lemma maybe_mutate_swap:
  assumes w: "wf_world w" "near_world w" and k: "NUM_OPENED w < N w"
    and S: "feasible w S" and m: "maybe_mutate w S t r = Inr (S', r')"
  shows "S' = S \<or> (\<exists>previous\<in>S. \<exists>new\<in>DC w - S. S' = insert new (S - {previous}))"
proof -
  from m obtain nb r1 where g: "get_neighbor w S r = Inr (nb, r1)" and "S' = nb \<or> S' = S"
    by (auto simp: maybe_mutate_def Let_def split: sum.splits prod.splits if_splits)
  with get_neighbor_swap[OF w k S g] show ?thesis by blast
qed

lemma maybe_mutate_feasible:
  assumes "wf_world w" "near_world w" "NUM_OPENED w < N w"
    and "feasible w S" and "maybe_mutate w S t r = Inr (S', r')"
  shows "feasible w S'"
  using maybe_mutate_swap[OF assms] assms(4) swap_feasible by blast

lemma sa_body_cases:
  assumes "sa_body w a s = Inr s'"
  shows "\<exists>S r c t. maybe_mutate w (opened s) (T s) (rnd s) = Inr (S, r) \<and>
           compute_cost w S = Inr c \<and> update_temp a (rep s) = Inr t \<and>
           s' = (if c < optimal_cost s
                 then s\<lparr>opened := S, optimum := S, optimal_cost := c, rnd := r\<rparr>
                 else s\<lparr>opened := S, rnd := r\<rparr>)\<lparr>T := t, rep := rep s + 1\<rparr>"
proof -
  from assms obtain S r where m: "maybe_mutate w (opened s) (T s) (rnd s) = Inr (S, r)"
    by (cases "maybe_mutate w (opened s) (T s) (rnd s)") (auto simp: sa_body_def)
  from assms m obtain c where c: "compute_cost w S = Inr c"
    by (cases "compute_cost w S") (auto simp: sa_body_def)
  from assms m c obtain t where t: "update_temp a (rep s) = Inr t"
    by (cases "update_temp a (rep s)") (auto simp: sa_body_def Let_def)
  from assms m c t have "s' = (if c < optimal_cost s
                 then s\<lparr>opened := S, optimum := S, optimal_cost := c, rnd := r\<rparr>
                 else s\<lparr>opened := S, rnd := r\<rparr>)\<lparr>T := t, rep := rep s + 1\<rparr>"
    by (simp add: sa_body_def Let_def)
  with m c t show ?thesis by blast
qed

lemma sa_loop_invariant:
  assumes "sa_loop w a b m s = Inr s'" and "I s"
    and step: "\<And>s s'. I s \<Longrightarrow> sa_body w a s = Inr s' \<Longrightarrow> I s'"
  shows "I s'"
  using assms
proof (induction w a b m s rule: sa_loop.induct)
  case (1 w a b m s)
  show ?case
  proof (cases "T s > b \<and> int (rep s) < m")
    case True
    with "1.prems"(1) obtain x where x: "sa_body w a s = Inr x"
      and l: "sa_loop w a b m x = Inr s'"
      by (subst (asm) sa_loop.simps) (auto split: sum.splits simp del: sa_loop.simps)
    have "I x" using "1.prems"(2) x by (rule "1.prems"(3))
    from "1.IH"[OF True x l this "1.prems"(3)] show ?thesis .
  next
    case False
    with "1.prems"(1) have "s' = s"
      by (subst (asm) sa_loop.simps) (simp del: sa_loop.simps)
    with "1.prems"(2) show ?thesis by simp
  qed
qed

lemma sa_body_best:
  assumes b: "sa_body w a s = Inr s'"
  shows "\<exists>c. compute_cost w (opened s') = Inr c \<and>
           (if c < optimal_cost s
            then optimal_cost s' = c \<and> optimum s' = opened s'
            else optimal_cost s' = optimal_cost s \<and> optimum s' = optimum s)"
proof -
  from sa_body_cases[OF b] obtain S r c t where
    c: "compute_cost w S = Inr c" and
    s': "s' = (if c < optimal_cost s
                 then s\<lparr>opened := S, optimum := S, optimal_cost := c, rnd := r\<rparr>
                 else s\<lparr>opened := S, rnd := r\<rparr>)\<lparr>T := t, rep := rep s + 1\<rparr>"
    by blast
  show ?thesis
  proof (cases "c < optimal_cost s")
    case True
    with s' have "opened s' = S" "optimum s' = S" "optimal_cost s' = c" by simp_all
    with c True show ?thesis by simp
  next
    case False
    with s' have "opened s' = S" "optimum s' = optimum s" "optimal_cost s' = optimal_cost s"
      by simp_all
    with c False show ?thesis by simp
  qed
qed

lemma sa_body_best_le:
  assumes b: "sa_body w a s = Inr s'"
  shows "optimal_cost s' \<le> optimal_cost s"
proof -
  from sa_body_best[OF b] obtain c where
    "if c < optimal_cost s
     then optimal_cost s' = c \<and> optimum s' = opened s'
     else optimal_cost s' = optimal_cost s \<and> optimum s' = optimum s" by blast
  then show ?thesis by (cases "c < optimal_cost s") simp_all
qed

text \<open>
  C9 (tracked best cost). In one pass of the loop the best cost never rises: with \<open>c\<close> the
  cost of the current set after the move, the best cost and the best set are replaced by
  \<open>c\<close> and the current set exactly when \<open>c\<close> is strictly below the best cost so far, and
  are unchanged otherwise. Hence the best cost at the end of any run of the loop is at most
  the best cost it started from, while the cost of the current set may rise.
\<close>

theorem best_cost_never_increases:
  "(sa_body w start_T s = Inr s' \<longrightarrow>
      optimal_cost s' \<le> optimal_cost s \<and>
      (\<exists>c. compute_cost w (opened s') = Inr c \<and>
           (if c < optimal_cost s
            then optimal_cost s' = c \<and> optimum s' = opened s'
            else optimal_cost s' = optimal_cost s \<and> optimum s' = optimum s))) \<and>
   (sa_loop w start_T stop_T max_reps s = Inr s'' \<longrightarrow> optimal_cost s'' \<le> optimal_cost s)"
proof (intro conjI impI)
  assume b: "sa_body w start_T s = Inr s'"
  show "optimal_cost s' \<le> optimal_cost s" by (rule sa_body_best_le[OF b])
  show "\<exists>c. compute_cost w (opened s') = Inr c \<and>
           (if c < optimal_cost s
            then optimal_cost s' = c \<and> optimum s' = opened s'
            else optimal_cost s' = optimal_cost s \<and> optimum s' = optimum s)"
    by (rule sa_body_best[OF b])
next
  assume l: "sa_loop w start_T stop_T max_reps s = Inr s''"
  show "optimal_cost s'' \<le> optimal_cost s"
  proof (rule sa_loop_invariant[OF l, where I = "\<lambda>x. optimal_cost x \<le> optimal_cost s"])
    show "optimal_cost s \<le> optimal_cost s" by simp
  next
    fix x x'
    assume "optimal_cost x \<le> optimal_cost s" and "sa_body w start_T x = Inr x'"
    with sa_body_best_le[of w start_T x x'] show "optimal_cost x' \<le> optimal_cost s" by simp
  qed
qed

theorem best_cost_never_increases_witness:
  "sa_body far_world 1000 far_state0 = Inr far_state1 \<and>
   optimal_cost far_state1 = 10001 \<and> optimal_cost far_state0 = 20000 \<and>
   sa_body far_world 1000 far_state1 = Inr far_state2 \<and>
   compute_cost far_world (opened far_state2) = Inr 20001 \<and>
   optimal_cost far_state2 = 10001 \<and>
   sa_loop far_world 1000 (1 / 1000) 3 far_state0 = Inr far_state2 \<and>
   optimal_cost far_state2 \<le> optimal_cost far_state0"
proof -
  have c: "optimal_cost far_state1 = 10001" "optimal_cost far_state0 = 20000"
    "optimal_cost far_state2 = 10001" "opened far_state2 = {- 1}"
    by (simp_all add: far_state0_def far_state1_def far_state2_def)
  from best_cost_never_increases[of far_world 1000 far_state0 far_state1 "1 / 1000" 3 far_state2]
    far_body1 far_loop
  have "optimal_cost far_state2 \<le> optimal_cost far_state0" by blast
  with far_body1 far_body2 far_loop c far_costs(3) show ?thesis by simp
qed

lemma sa_initial_feasible:
  assumes "NUM_OPENED w \<le> N w"
  shows "\<exists>smp r1. random_sample r (DC w) (NUM_OPENED w) = Inr (smp, r1) \<and>
           card (set smp) = NUM_OPENED w \<and> set smp \<subseteq> DC w"
  using random_sample_props[where population = "DC w" and r = r and k = "NUM_OPENED w",
      OF finite_DC] assms
  by (simp add: card_DC)

lemma sa_body_feasible:
  assumes w: "wf_world w" "near_world w" and k: "NUM_OPENED w < N w"
    and I: "feasible w (opened s) \<and> feasible w (optimum s)"
    and b: "sa_body w a s = Inr s'"
  shows "feasible w (opened s') \<and> feasible w (optimum s')"
proof -
  from sa_body_cases[OF b] obtain S r c t where
    m: "maybe_mutate w (opened s) (T s) (rnd s) = Inr (S, r)" and
    s': "s' = (if c < optimal_cost s
                 then s\<lparr>opened := S, optimum := S, optimal_cost := c, rnd := r\<rparr>
                 else s\<lparr>opened := S, rnd := r\<rparr>)\<lparr>T := t, rep := rep s + 1\<rparr>"
    by blast
  have fS: "feasible w S" using maybe_mutate_feasible[OF w k _ m] I by blast
  show ?thesis
  proof (cases "c < optimal_cost s")
    case True
    with s' have "opened s' = S" "optimum s' = S" by simp_all
    with fS show ?thesis by simp
  next
    case False
    with s' have "opened s' = S" "optimum s' = optimum s" by simp_all
    with fS I show ?thesis by simp
  qed
qed

lemma simulated_annealing_cases:
  assumes "simulated_annealing w a b m r = Inr out"
  shows "\<exists>smp r1 c s. random_sample r (DC w) (NUM_OPENED w) = Inr (smp, r1) \<and>
           compute_cost w (set smp) = Inr c \<and>
           sa_loop w a b m \<lparr>opened = set smp, optimum = set smp, optimal_cost = c,
                            T = a, rep = 1, rnd = r1\<rparr> = Inr s \<and>
           out = \<lparr>final = s, printed_set = optimum s, printed_cost = optimal_cost s,
                   return_value = None\<rparr>"
proof -
  from assms obtain smp r1 where s: "random_sample r (DC w) (NUM_OPENED w) = Inr (smp, r1)"
    by (cases "random_sample r (DC w) (NUM_OPENED w)") (auto simp: simulated_annealing_def)
  from assms s obtain c where c: "compute_cost w (set smp) = Inr c"
    by (cases "compute_cost w (set smp)") (auto simp: simulated_annealing_def)
  from assms s c obtain st where
    l: "sa_loop w a b m \<lparr>opened = set smp, optimum = set smp, optimal_cost = c,
                            T = a, rep = 1, rnd = r1\<rparr> = Inr st"
    by (cases "sa_loop w a b m \<lparr>opened = set smp, optimum = set smp, optimal_cost = c,
                            T = a, rep = 1, rnd = r1\<rparr>") (auto simp: simulated_annealing_def)
  from assms s c l have "out = \<lparr>final = st, printed_set = optimum st,
      printed_cost = optimal_cost st, return_value = None\<rparr>"
    by (simp add: simulated_annealing_def)
  with s c l show ?thesis by blast
qed

text \<open>
  C5 (size of the opened set), as amended. In a world whose matrix is \<open>N \<times> N\<close> with every
  distance below 10000 and with fewer sites to open than sites: the initial sample is a
  set of \<open>NUM_OPENED\<close> site indices; a move of \<open>maybe_mutate\<close> keeps the set or replaces
  exactly one member by a closed site; and whenever the run completes, the current set
  and the printed best set are sets of \<open>NUM_OPENED\<close> site indices, and the value
  returned to the caller is None.
\<close>

theorem simulated_annealing_keeps_size:
  assumes w: "wf_world w" "near_world w" and k: "NUM_OPENED w < N w"
  shows "(\<exists>smp r1. random_sample r (DC w) (NUM_OPENED w) = Inr (smp, r1) \<and>
            card (set smp) = NUM_OPENED w \<and> set smp \<subseteq> DC w) \<and>
         (\<forall>S t r0 S' r'.
            S \<subseteq> DC w \<and> card S = NUM_OPENED w \<and> maybe_mutate w S t r0 = Inr (S', r') \<longrightarrow>
            S' = S \<or> (\<exists>previous\<in>S. \<exists>new\<in>DC w - S. S' = insert new (S - {previous}))) \<and>
         (\<forall>out. simulated_annealing w start_T stop_T max_reps r = Inr out \<longrightarrow>
            card (opened (final out)) = NUM_OPENED w \<and> opened (final out) \<subseteq> DC w \<and>
            card (printed_set out) = NUM_OPENED w \<and> printed_set out \<subseteq> DC w \<and>
            printed_set out = optimum (final out) \<and> return_value out = None)"
proof (intro conjI allI impI)
  show "\<exists>smp r1. random_sample r (DC w) (NUM_OPENED w) = Inr (smp, r1) \<and>
            card (set smp) = NUM_OPENED w \<and> set smp \<subseteq> DC w"
    using k by (intro sa_initial_feasible) simp
next
  fix S t r0 S' r'
  assume "S \<subseteq> DC w \<and> card S = NUM_OPENED w \<and> maybe_mutate w S t r0 = Inr (S', r')"
  then have "feasible w S" "maybe_mutate w S t r0 = Inr (S', r')"
    by (simp_all add: feasible_def)
  from maybe_mutate_swap[OF w k this]
  show "S' = S \<or> (\<exists>previous\<in>S. \<exists>new\<in>DC w - S. S' = insert new (S - {previous}))" .
next
  fix out
  assume run: "simulated_annealing w start_T stop_T max_reps r = Inr out"
  from simulated_annealing_cases[OF run] obtain smp r1 c s where
    smp: "random_sample r (DC w) (NUM_OPENED w) = Inr (smp, r1)" and
    l: "sa_loop w start_T stop_T max_reps
          \<lparr>opened = set smp, optimum = set smp, optimal_cost = c,
           T = start_T, rep = 1, rnd = r1\<rparr> = Inr s" and
    out: "out = \<lparr>final = s, printed_set = optimum s, printed_cost = optimal_cost s,
                   return_value = None\<rparr>"
    by blast
  from sa_initial_feasible[of w r] k smp have init: "feasible w (set smp)"
    by (auto simp: feasible_def)
  have "feasible w (opened s) \<and> feasible w (optimum s)"
  proof (rule sa_loop_invariant[OF l,
        where I = "\<lambda>x. feasible w (opened x) \<and> feasible w (optimum x)"])
    show "feasible w (opened \<lparr>opened = set smp, optimum = set smp, optimal_cost = c,
           T = start_T, rep = 1, rnd = r1\<rparr>) \<and>
          feasible w (optimum \<lparr>opened = set smp, optimum = set smp, optimal_cost = c,
           T = start_T, rep = 1, rnd = r1\<rparr>)"
      using init by simp
  next
    fix x x'
    assume "feasible w (opened x) \<and> feasible w (optimum x)" "sa_body w start_T x = Inr x'"
    then show "feasible w (opened x') \<and> feasible w (optimum x')"
      by (rule sa_body_feasible[OF w k])
  qed
  then have f: "card (opened s) = NUM_OPENED w" "opened s \<subseteq> DC w"
    "card (optimum s) = NUM_OPENED w" "optimum s \<subseteq> DC w"
    by (simp_all add: feasible_def)
  from f(1) out show "card (opened (final out)) = NUM_OPENED w" by simp
  from f(2) out show "opened (final out) \<subseteq> DC w" by simp
  from f(3) out show "card (printed_set out) = NUM_OPENED w" by simp
  from f(4) out show "printed_set out \<subseteq> DC w" by simp
  from out show "printed_set out = optimum (final out)" by simp
  from out show "return_value out = None" by simp
qed

lemma near3_facts:
  "sorted_list_of_set (DC near3) = [0, 1, 2]"
  "sorted_list_of_set {0 :: int} = [0]"
  "compute_cost near3 {0} = Inr 3"
  "compute_cost near3 {1} = Inr 2"
  "nearest_neighbor near3 0 (DC near3 - {0}) = Inr (1, 1)"
  "wf_world near3" "near_world near3"
  by code_simp+

lemma near3_sample:
  "random_sample zero_source (DC near3) (NUM_OPENED near3) = Inr ([0], zero_source\<lparr>used := Suc 0\<rparr>)"
proof -
  have k: "NUM_OPENED near3 = Suc 0" by (simp add: near3_def)
  show ?thesis by (simp add: random_sample_def near3_facts k zero_source_def)
qed

lemma near3_step:
  "maybe_mutate near3 {0} 1000 (zero_source\<lparr>used := Suc 0\<rparr>) =
     Inr ({1}, zero_source\<lparr>used := 3\<rparr>)"
  by (simp add: maybe_mutate_def near3_facts get_neighbor_def random_sample_def
      random_random_def zero_source_def exp_overflow_bound_def)

text \<open>
  Moves at temperature zero. On \<open>near3\<close> the costs are numpy integers: the improving move
  from \<open>{0}\<close> to \<open>{1}\<close> is accepted, the worsening move from \<open>{1}\<close> to \<open>{0}\<close> is accepted
  for \<open>p = 0\<close> and refused for \<open>p = 1 / 2\<close>. On \<open>remote_world\<close> no distance is read into a
  cost, the costs are Python integers and the division raises.
\<close>

lemma zero_temperature_facts:
  "numpy_cost near3 {0}" "numpy_cost near3 {1}"
  "sorted_list_of_set {1 :: int} = [1]"
  "nearest_neighbor near3 1 (DC near3 - {1}) = Inr (1, 0)"
  "compute_cost remote_world {0} = Inr 20000"
  "compute_cost remote_world {- 1} = Inr 20000"
  "nearest_neighbor remote_world 0 (DC remote_world - {0}) = Inr (10000, - 1)"
  "\<not> numpy_cost remote_world {0}" "\<not> numpy_cost remote_world {- 1}"
  by code_simp+

lemma zero_temperature_moves:
  "maybe_mutate near3 {0} 0 (zero_source\<lparr>used := Suc 0\<rparr>) = Inr ({1}, zero_source\<lparr>used := 3\<rparr>)"
  "maybe_mutate near3 {1} 0 (zero_source\<lparr>used := Suc 0\<rparr>) = Inr ({0}, zero_source\<lparr>used := 3\<rparr>)"
  "maybe_mutate near3 {1} 0 (zero_source\<lparr>uniforms := \<lambda>n. 1 / 2, used := Suc 0\<rparr>) =
     Inr ({1}, zero_source\<lparr>uniforms := \<lambda>n. 1 / 2, used := 3\<rparr>)"
  "maybe_mutate remote_world {0} 0 (zero_source\<lparr>used := Suc 0\<rparr>) = Inl ZeroDivisionError"
  by (simp_all add: maybe_mutate_def near3_facts zero_temperature_facts get_neighbor_def
      random_sample_def random_random_def zero_source_def)

lemma near3_run:
  "simulated_annealing near3 1000 (1 / 1000) 2 zero_source =
     Inr \<lparr>final = near3_final, printed_set = {1}, printed_cost = 2, return_value = None\<rparr>"
proof -
  let ?s0 = "\<lparr>opened = {0}, optimum = {0}, optimal_cost = 3, T = 1000, rep = Suc 0,
     rnd = zero_source\<lparr>used := Suc 0\<rparr>\<rparr>"
  have b: "sa_body near3 1000 ?s0 = Inr near3_final"
    by (simp add: sa_body_def near3_step near3_facts update_temp_def near3_final_def)
  have f: "rep near3_final = 2" "optimum near3_final = {1}" "optimal_cost near3_final = 2"
    by (simp_all add: near3_final_def)
  have l2: "sa_loop near3 1000 (1 / 1000) 2 near3_final = Inr near3_final"
    by (subst sa_loop.simps) (simp add: f del: sa_loop.simps)
  have l1: "sa_loop near3 1000 (1 / 1000) 2 ?s0 = Inr near3_final"
    by (subst sa_loop.simps) (simp add: b l2 del: sa_loop.simps)
  show ?thesis
    by (simp add: simulated_annealing_def near3_sample near3_facts l1 f del: sa_loop.simps)
qed

theorem simulated_annealing_keeps_size_witness:
  "wf_world near3 \<and> near_world near3 \<and> NUM_OPENED near3 < N near3 \<and>
   simulated_annealing near3 1000 (1 / 1000) 2 zero_source =
     Inr \<lparr>final = near3_final, printed_set = {1}, printed_cost = 2, return_value = None\<rparr> \<and>
   card (opened near3_final) = NUM_OPENED near3 \<and> opened near3_final \<subseteq> DC near3 \<and>
   card {1 :: int} = NUM_OPENED near3 \<and> {1} \<subseteq> DC near3"
proof -
  have k: "NUM_OPENED near3 < N near3" by (simp add: near3_def)
  note run = simulated_annealing_keeps_size[OF near3_facts(6,7) k, of zero_source 1000 "1 / 1000" 2,
      THEN conjunct2, THEN conjunct2, rule_format, OF near3_run]
  from run have "card (opened near3_final) = NUM_OPENED near3 \<and>
    opened near3_final \<subseteq> DC near3 \<and> card {1 :: int} = NUM_OPENED near3 \<and> {1} \<subseteq> DC near3"
    unfolding sa_outcome.simps by blast
  with near3_facts(6,7) k near3_run show ?thesis by blast
qed

lemma full_facts:
  "sorted_list_of_set (DC full_world) = [0, 1]"
  "sorted_list_of_set {0, 1 :: int} = [0, 1]"
  "compute_cost full_world {0, 1} = Inr 0"
  "compute_cost full_world {- 1, 1} = Inr 1"
  "nearest_neighbor full_world 0 (DC full_world - {0, 1}) = Inr (10000, - 1)"
  by code_simp+

lemma full_sample:
  "random_sample zero_source (DC full_world) (NUM_OPENED full_world) =
     Inr ([0, 1], zero_source\<lparr>used := 2\<rparr>)"
proof -
  have k: "NUM_OPENED full_world = Suc (Suc 0)" by (simp add: full_world_def)
  have u: "zero_source\<lparr>used := 2\<rparr> = zero_source\<lparr>used := Suc (Suc 0)\<rparr>"
    by (simp add: numeral_2_eq_2)
  show ?thesis unfolding u by (simp add: random_sample_def full_facts k zero_source_def)
qed

lemma full_step:
  "maybe_mutate full_world {0, 1} 1000 (zero_source\<lparr>used := 2\<rparr>) =
     Inr ({- 1, 1}, zero_source\<lparr>used := 4\<rparr>)"
  by (simp add: maybe_mutate_def full_facts get_neighbor_def random_sample_def
      random_random_def zero_source_def exp_overflow_bound_def)

lemma full_run:
  "simulated_annealing full_world 1000 (1 / 1000) 2 zero_source =
     Inr \<lparr>final = full_final, printed_set = {0, 1}, printed_cost = 0, return_value = None\<rparr>"
proof -
  let ?s0 = "\<lparr>opened = {0, 1}, optimum = {0, 1}, optimal_cost = 0, T = 1000, rep = Suc 0,
     rnd = zero_source\<lparr>used := 2\<rparr>\<rparr>"
  have b: "sa_body full_world 1000 ?s0 = Inr full_final"
    by (simp add: sa_body_def full_step full_facts update_temp_def full_final_def)
  have f: "rep full_final = 2" "optimum full_final = {0, 1}" "optimal_cost full_final = 0"
    by (simp_all add: full_final_def)
  have l2: "sa_loop full_world 1000 (1 / 1000) 2 full_final = Inr full_final"
    by (subst sa_loop.simps) (simp add: f del: sa_loop.simps)
  have l1: "sa_loop full_world 1000 (1 / 1000) 2 ?s0 = Inr full_final"
    by (subst sa_loop.simps) (simp add: b l2 del: sa_loop.simps)
  show ?thesis
    by (simp add: simulated_annealing_def full_sample full_facts l1 f del: sa_loop.simps)
qed

lemma greedy_zero_capacity:
  assumes "2 \<le> shape1 (BED h)" "capacity h \<le> 0"
  shows "get_optimum h =
           Inr (zip [0..<shape0 (BED h)] (replicate (shape0 (BED h)) 0),
                h\<lparr>num_accesses := num_accesses h + shape0 (BED h)\<rparr>)"
  using assms by (simp add: get_optimum_def first_gains_def Let_def)

lemma greedy_no_patients:
  assumes "2 \<le> shape1 (BED h)" "cells (BED h) = []" "0 < capacity h"
  shows "get_optimum h = Inl ValueError"
proof -
  from assms(3) obtain n where n: "nat (capacity h) = Suc n"
    by (cases "nat (capacity h)") auto
  show ?thesis using assms(1,2)
    by (simp add: get_optimum_def first_gains_def Let_def n greedy_body_def argmax_def)
qed

lemma sa_too_many:
  assumes "N w < NUM_OPENED w"
  shows "simulated_annealing w a b m r = Inl ValueError"
  using assms random_sample_props(1)[where population = "DC w" and r = r
      and k = "NUM_OPENED w", OF finite_DC]
  by (simp add: simulated_annealing_def card_DC)

lemma sa_full_universe:
  assumes "NUM_OPENED w = N w"
  shows "\<exists>smp r1. random_sample r (DC w) (NUM_OPENED w) = Inr (smp, r1) \<and> set smp = DC w"
proof -
  from sa_initial_feasible[of w r] assms obtain smp r1 where
    s: "random_sample r (DC w) (NUM_OPENED w) = Inr (smp, r1)"
    "card (set smp) = NUM_OPENED w" "set smp \<subseteq> DC w" by auto
  from s(2,3) assms have "set smp = DC w"
    by (intro card_subset_eq finite_DC) (simp_all add: card_DC)
  with s(1) show ?thesis by blast
qed

lemma nearest_neighbor_empty: "nearest_neighbor w previous (DC w - DC w) = Inr (10000, - 1)"
  by (simp add: nearest_neighbor_def)

text \<open>
  C8 (degenerate input), as amended. With a capacity of zero and at least two columns the
  greedy allocator returns the allocation of 0 units to every patient, the empty
  dictionary when there are no patients. With no patients and a positive capacity it
  raises ValueError. The annealing solver raises ValueError when more sites are to be
  opened than exist; when all sites are to be opened the initial set is the full universe
  and the neighbour search, over the empty set of closed sites, returns \<open>-1\<close>.
\<close>

theorem degenerate_inputs:
  "(2 \<le> shape1 (BED h) \<and> capacity h \<le> 0 \<longrightarrow>
      get_optimum h =
        Inr (zip [0..<shape0 (BED h)] (replicate (shape0 (BED h)) 0),
             h\<lparr>num_accesses := num_accesses h + shape0 (BED h)\<rparr>)) \<and>
   (2 \<le> shape1 (BED h) \<and> cells (BED h) = [] \<and> 0 < capacity h \<longrightarrow>
      get_optimum h = Inl ValueError) \<and>
   (N w < NUM_OPENED w \<longrightarrow> simulated_annealing w start_T stop_T max_reps r = Inl ValueError) \<and>
   (NUM_OPENED w = N w \<longrightarrow>
      (\<exists>smp r1. random_sample r (DC w) (NUM_OPENED w) = Inr (smp, r1) \<and> set smp = DC w) \<and>
      nearest_neighbor w previous (DC w - DC w) = Inr (10000, - 1))"
  using greedy_zero_capacity[of h] greedy_no_patients[of h]
    sa_too_many[of w start_T stop_T max_reps r] sa_full_universe[of w r]
    nearest_neighbor_empty[of w previous]
  by blast

text \<open>
  The claim C8 as stated fails: the greedy allocator raises on a table without patients
  at the default capacity, the annealing solver raises when 3 of 2 sites are to be opened,
  and when 2 of 2 sites are to be opened its first move searches the empty set of closed
  sites and puts \<open>-1\<close> into the opened set.
\<close>

theorem degenerate_inputs_counterexample:
  "get_optimum (HeuristicOptimizer empty_table 100) = Inl ValueError \<and>
   simulated_annealing (full_world\<lparr>NUM_OPENED := 3\<rparr>) 1000 (1 / 1000) 2 zero_source =
     Inl ValueError \<and>
   nearest_neighbor full_world 0 (DC full_world - {0, 1}) = Inr (10000, - 1) \<and>
   map_sum id (\<lambda>out. opened (final out))
     (simulated_annealing full_world 1000 (1 / 1000) 2 zero_source) = Inr {- 1, 1} \<and>
   - 1 \<notin> DC full_world"
proof -
  have a: "get_optimum (HeuristicOptimizer empty_table 100) = Inl ValueError" by code_simp
  have "sorted_list_of_set (DC (full_world\<lparr>NUM_OPENED := 3\<rparr>)) = [0, 1]" by code_simp
  then have b: "simulated_annealing (full_world\<lparr>NUM_OPENED := 3\<rparr>) 1000 (1 / 1000) 2 zero_source =
     Inl ValueError"
    by (simp add: simulated_annealing_def random_sample_def)
  have c: "- 1 \<notin> DC full_world" by (auto simp: DC_def)
  from a b c full_facts(5) full_run show ?thesis by (simp add: full_final_def)
qed

theorem degenerate_inputs_witness:
  "get_optimum (HeuristicOptimizer mock_BED 0) =
     Inr ([(0, 0), (1, 0), (2, 0)], (HeuristicOptimizer mock_BED 0)\<lparr>num_accesses := 3\<rparr>) \<and>
   get_optimum (HeuristicOptimizer empty_table 0) =
     Inr ([], HeuristicOptimizer empty_table 0) \<and>
   get_optimum (HeuristicOptimizer empty_table 1) = Inl ValueError \<and>
   simulated_annealing (full_world\<lparr>NUM_OPENED := 3\<rparr>) 1000 (1 / 1000) 2 zero_source =
     Inl ValueError \<and>
   (\<exists>smp r1. random_sample zero_source (DC full_world) (NUM_OPENED full_world) = Inr (smp, r1) \<and>
      set smp = DC full_world) \<and>
   nearest_neighbor full_world 0 (DC full_world - DC full_world) = Inr (10000, - 1)"
proof -
  have m: "2 \<le> shape1 (BED (HeuristicOptimizer mock_BED 0))"
    "capacity (HeuristicOptimizer mock_BED 0) \<le> 0"
    "shape0 (BED (HeuristicOptimizer mock_BED 0)) = 3"
    "num_accesses (HeuristicOptimizer mock_BED 0) = 0"
    by (simp_all add: HeuristicOptimizer_def mock_BED_def array2_def)
  have e: "2 \<le> shape1 (BED (HeuristicOptimizer empty_table c))"
    "cells (BED (HeuristicOptimizer empty_table c)) = []"
    "shape0 (BED (HeuristicOptimizer empty_table c)) = 0"
    "capacity (HeuristicOptimizer empty_table c) = c" for c
    by (simp_all add: HeuristicOptimizer_def empty_table_def)
  have u: "[0..<3] = [0, 1, 2]" by (simp add: upt_rec)
  have k: "N (full_world\<lparr>NUM_OPENED := 3\<rparr>) < NUM_OPENED (full_world\<lparr>NUM_OPENED := 3\<rparr>)"
    "NUM_OPENED full_world = N full_world"
    by (simp_all add: full_world_def)
  from degenerate_inputs[of "HeuristicOptimizer mock_BED 0"] m u
  have 1: "get_optimum (HeuristicOptimizer mock_BED 0) =
     Inr ([(0, 0), (1, 0), (2, 0)], (HeuristicOptimizer mock_BED 0)\<lparr>num_accesses := 3\<rparr>)"
    by (simp add: numeral_3_eq_3)
  from degenerate_inputs[of "HeuristicOptimizer empty_table 0"] e[of 0]
  have 2: "get_optimum (HeuristicOptimizer empty_table 0) = Inr ([], HeuristicOptimizer empty_table 0)"
    by simp
  from degenerate_inputs[of "HeuristicOptimizer empty_table 1"] e[of 1]
  have 3: "get_optimum (HeuristicOptimizer empty_table 1) = Inl ValueError" by simp
  from degenerate_inputs[of _ "full_world\<lparr>NUM_OPENED := 3\<rparr>" 1000 "1 / 1000" 2 zero_source] k(1)
  have 4: "simulated_annealing (full_world\<lparr>NUM_OPENED := 3\<rparr>) 1000 (1 / 1000) 2 zero_source =
     Inl ValueError" by blast
  from degenerate_inputs[of _ full_world _ _ _ zero_source 0] k(2)
  have 5: "(\<exists>smp r1. random_sample zero_source (DC full_world) (NUM_OPENED full_world) = Inr (smp, r1) \<and>
      set smp = DC full_world) \<and>
   nearest_neighbor full_world 0 (DC full_world - DC full_world) = Inr (10000, - 1)"
    by blast
  from 1 2 3 4 5 show ?thesis by blast
qed

end
